theory Spec2Isabelle
  imports Complex_Main "HOL-Library.Sublist" "HOL-Library.Multiset"
begin

chapter \<open>The services\<close>

section \<open>Text\<close>

text \<open>
  A JavaScript string is a sequence of 16-bit code units. A code unit is modelled as a
  natural number and a string as a list of them; \<open>js\<close> gives the code units of an
  ASCII literal of the source.
\<close>

type_synonym jsstring = "nat list"

definition js :: "string \<Rightarrow> jsstring" where
  "js s = map of_char s"

text \<open>
  \<open>String.prototype.toLowerCase\<close>, one code unit at a time: the letters of ASCII and of
  Latin-1, and the Kelvin sign U+212A, which becomes \<open>k\<close>. The other cased letters
  beyond U+00FF are left as they are: the source turns each of them into letters that
  are not ASCII either, except U+0130, which it turns into \<open>i\<close> followed by U+0307.
\<close>

definition toLowerUnit :: "nat \<Rightarrow> nat" where
  "toLowerUnit c =
     (if (65 \<le> c \<and> c \<le> 90) \<or> (192 \<le> c \<and> c \<le> 222 \<and> c \<noteq> 215) then c + 32
      else if c = 8490 then 107
      else c)"

definition toLowerCase :: "jsstring \<Rightarrow> jsstring" where
  "toLowerCase s = map toLowerUnit s"

text \<open>\<open>s.includes(k)\<close>: \<open>k\<close> occurs in \<open>s\<close> as a contiguous run.\<close>

fun str_includes :: "jsstring \<Rightarrow> jsstring \<Rightarrow> bool" where
  "str_includes [] k = (k = [])"
| "str_includes (c # cs) k = (prefix k (c # cs) \<or> str_includes cs k)"

text \<open>\<open>xs.join(sep)\<close> on an array of strings.\<close>

fun join :: "jsstring \<Rightarrow> jsstring list \<Rightarrow> jsstring" where
  "join sep [] = []"
| "join sep [x] = x"
| "join sep (x # y # ys) = x @ sep @ join sep (y # ys)"

section \<open>Errors and effects\<close>

text \<open>
  A thrown value is an \<open>Error\<close> with its message. The services talk to the outside
  through a cache and through HTTP requests; each call they make is recorded as an
  event, and what the call answers is given by the environment. A computation is the
  pair of its outcome (\<open>Inl\<close> when it throws) and the events it produced. The calls
  of \<open>logger\<close> are left out: they return nothing and are taken not to throw.
\<close>

datatype error = Error (message: jsstring)

datatype event =
    CacheGet jsstring
  | CacheSet jsstring "real option"
  | NerPost jsstring
  | ImageGet jsstring
  | ClassifyPost
  | HeadRequest jsstring

type_synonym 'a io = "(error + 'a) \<times> event list"

definition ret :: "'a \<Rightarrow> 'a io" where
  "ret x = (Inr x, [])"

definition throw :: "error \<Rightarrow> 'a io" where
  "throw e = (Inl e, [])"

definition call :: "event \<Rightarrow> error + 'a \<Rightarrow> 'a io" where
  "call ev outcome = (outcome, [ev])"

definition bind :: "'a io \<Rightarrow> ('a \<Rightarrow> 'b io) \<Rightarrow> 'b io" where
  "bind m f =
     (case fst m of
        Inl e \<Rightarrow> (Inl e, snd m)
      | Inr x \<Rightarrow> (fst (f x), snd m @ snd (f x)))"

definition try_catch :: "'a io \<Rightarrow> (error \<Rightarrow> 'a io) \<Rightarrow> 'a io" where
  "try_catch m h =
     (case fst m of
        Inl e \<Rightarrow> (fst (h e), snd m @ snd (h e))
      | Inr x \<Rightarrow> m)"

text \<open>
  The cache service handed to the constructors. \<open>get\<close> answers a stored value or a
  miss (\<open>None\<close>, a falsy value in the source); \<open>set\<close> takes the key, the value and
  the time-to-live in hours, \<open>None\<close> when the caller passes no third argument. Either
  may throw.
\<close>

record 'v cache =
  cache_get :: "jsstring \<Rightarrow> error + 'v option"
  cache_set :: "jsstring \<Rightarrow> 'v \<Rightarrow> real option \<Rightarrow> error + unit"

definition cacheGet :: "'v cache \<Rightarrow> jsstring \<Rightarrow> 'v option io" where
  "cacheGet c k = call (CacheGet k) (cache_get c k)"

definition cacheSet :: "'v cache \<Rightarrow> jsstring \<Rightarrow> 'v \<Rightarrow> real option \<Rightarrow> unit io" where
  "cacheSet c k v ttl = call (CacheSet k ttl) (cache_set c k v ttl)"

section \<open>Feed triage: SocialMediaService\<close>

record engagement =
  likes :: int
  shares :: int
  replies :: int

text \<open>
  A report. The fields \<open>id\<close> and \<open>keywords\<close> of the source are \<open>report_id\<close>
  and \<open>report_keywords\<close> here. \<open>timestamp\<close> holds what the source reads with
  \<open>new Date(r.timestamp).getTime()\<close>: the instant in milliseconds, or \<open>None\<close>
  where the reading is \<open>NaN\<close> because the field holds no date.
\<close>

record report =
  report_id :: jsstring
  user :: jsstring
  content :: jsstring
  timestamp :: "int option"
  priority :: jsstring
  location :: jsstring
  report_keywords :: "jsstring list"
  platform :: jsstring
  verified :: bool
  engagement :: engagement

record annotated_report = report +
  sentiment :: jsstring
  sentiment_score :: int

subsection \<open>generateEnhancedMockReports\<close>

text \<open>
  The eight fixture reports. \<open>now\<close> is the reading of \<open>Date.now()\<close>, one reading
  for all eight. The two pictographs that open the second and the sixth content are
  written as their code units.
\<close>

definition baseReports :: "int \<Rightarrow> jsstring \<Rightarrow> report list" where
  "baseReports now disasterId =
   [ \<lparr> report_id = js ''tweet_'' @ disasterId @ js ''_1'',
       user = js ''citizen_reporter'',
       content = js ''#FloodAlert Water levels rising rapidly in downtown area. Multiple streets flooded. Avoid 5th Avenue between 42nd and 50th Street. Emergency services on scene.'',
       timestamp = Some (now - 15 * 60 * 1000),
       priority = js ''urgent'',
       location = js ''Manhattan, NYC'',
       report_keywords = [js ''flood'', js ''emergency'', js ''water'', js ''streets''],
       platform = js ''Twitter'',
       verified = True,
       engagement = \<lparr> likes = 234, shares = 89, replies = 45 \<rparr> \<rparr>,
     \<lparr> report_id = js ''tweet_'' @ disasterId @ js ''_2'',
       user = js ''nyc_emergency'',
       content = [55357, 57000] @ js '' EMERGENCY ALERT: Evacuation order issued for Lower East Side residents. Proceed to designated shelters immediately. Transportation available at community centers.'',
       timestamp = Some (now - 25 * 60 * 1000),
       priority = js ''urgent'',
       location = js ''Lower East Side, NYC'',
       report_keywords = [js ''evacuation'', js ''emergency'', js ''shelter'', js ''transportation''],
       platform = js ''Twitter'',
       verified = True,
       engagement = \<lparr> likes = 567, shares = 234, replies = 78 \<rparr> \<rparr>,
     \<lparr> report_id = js ''tweet_'' @ disasterId @ js ''_3'',
       user = js ''volunteer_helper'',
       content = js ''Setting up emergency food distribution at Central Park. Hot meals and water available. Volunteers needed! #DisasterRelief #NYC'',
       timestamp = Some (now - 45 * 60 * 1000),
       priority = js ''medium'',
       location = js ''Central Park, NYC'',
       report_keywords = [js ''food'', js ''volunteers'', js ''relief'', js ''help''],
       platform = js ''Twitter'',
       verified = False,
       engagement = \<lparr> likes = 123, shares = 67, replies = 23 \<rparr> \<rparr>,
     \<lparr> report_id = js ''tweet_'' @ disasterId @ js ''_4'',
       user = js ''medical_team_nyc'',
       content = js ''Mobile medical unit deployed to Brooklyn Bridge area. First aid and emergency medical care available. Follow safety protocols when approaching.'',
       timestamp = Some (now - 35 * 60 * 1000),
       priority = js ''high'',
       location = js ''Brooklyn Bridge, NYC'',
       report_keywords = [js ''medical'', js ''first aid'', js ''emergency'', js ''safety''],
       platform = js ''Twitter'',
       verified = True,
       engagement = \<lparr> likes = 189, shares = 45, replies = 12 \<rparr> \<rparr>,
     \<lparr> report_id = js ''tweet_'' @ disasterId @ js ''_5'',
       user = js ''local_resident'',
       content = js ''Power outage affecting entire block on 8th Avenue. Traffic lights down. Please drive carefully and check on elderly neighbors.'',
       timestamp = Some (now - 55 * 60 * 1000),
       priority = js ''medium'',
       location = js ''8th Avenue, NYC'',
       report_keywords = [js ''power'', js ''outage'', js ''traffic'', js ''safety''],
       platform = js ''Twitter'',
       verified = False,
       engagement = \<lparr> likes = 67, shares = 23, replies = 8 \<rparr> \<rparr>,
     \<lparr> report_id = js ''tweet_'' @ disasterId @ js ''_6'',
       user = js ''fire_dept_nyc'',
       content = [55357, 56613] @ js '' Structure fire contained at 123 Main St. Area secured. Residents from adjacent buildings evacuated as precaution. Air quality monitoring in progress.'',
       timestamp = Some (now - 65 * 60 * 1000),
       priority = js ''high'',
       location = js ''Main Street, NYC'',
       report_keywords = [js ''fire'', js ''evacuation'', js ''air quality'', js ''safety''],
       platform = js ''Twitter'',
       verified = True,
       engagement = \<lparr> likes = 345, shares = 123, replies = 56 \<rparr> \<rparr>,
     \<lparr> report_id = js ''tweet_'' @ disasterId @ js ''_7'',
       user = js ''community_leader'',
       content = js ''Community center at 456 Oak St open as temporary shelter. Blankets, food, and phone charging stations available. Pet-friendly facility.'',
       timestamp = Some (now - 75 * 60 * 1000),
       priority = js ''medium'',
       location = js ''Oak Street, NYC'',
       report_keywords = [js ''shelter'', js ''community'', js ''pets'', js ''charging''],
       platform = js ''Twitter'',
       verified = False,
       engagement = \<lparr> likes = 156, shares = 78, replies = 34 \<rparr> \<rparr>,
     \<lparr> report_id = js ''tweet_'' @ disasterId @ js ''_8'',
       user = js ''transport_update'',
       content = js ''Subway lines 4, 5, 6 suspended due to flooding. Bus service rerouted. Check MTA app for real-time updates. Free rides to evacuation centers.'',
       timestamp = Some (now - 85 * 60 * 1000),
       priority = js ''high'',
       location = js ''NYC Transit System'',
       report_keywords = [js ''subway'', js ''bus'', js ''transport'', js ''evacuation''],
       platform = js ''Twitter'',
       verified = True,
       engagement = \<lparr> likes = 445, shares = 167, replies = 89 \<rparr> \<rparr> ]"

text \<open>
  A report passes the tag filter when some tag occurs, in lower case, in one of its
  keywords or in its content. With no tag every report passes.
\<close>

definition generateEnhancedMockReports :: "int \<Rightarrow> jsstring list \<Rightarrow> jsstring \<Rightarrow> report list" where
  "generateEnhancedMockReports now tags disasterId =
     (if length tags > 0 then
        filter (\<lambda>report.
          list_ex (\<lambda>tag.
            list_ex (\<lambda>keyword. str_includes (toLowerCase keyword) (toLowerCase tag))
              (report_keywords report)
            \<or> str_includes (toLowerCase (content report)) (toLowerCase tag)) tags)
          (baseReports now disasterId)
      else baseReports now disasterId)"

subsection \<open>fetchSocialMediaReports\<close>

text \<open>
  The body of the \<open>try\<close> block: the cache is read; a hit is returned as it is; on a
  miss the fixture reports are generated, written to the cache for half an hour, and
  returned.
\<close>

definition fetch_body :: "report list cache \<Rightarrow> int \<Rightarrow> jsstring \<Rightarrow> jsstring list \<Rightarrow> jsstring
    \<Rightarrow> report list io" where
  "fetch_body c now disasterId tags cacheKey =
     bind (cacheGet c cacheKey) (\<lambda>cached.
       case cached of
         Some v \<Rightarrow> ret v
       | None \<Rightarrow>
           (let mockReports = generateEnhancedMockReports now tags disasterId in
            bind (cacheSet c cacheKey mockReports (Some 0.5)) (\<lambda>_. ret mockReports)))"

definition socialMediaKey :: "jsstring \<Rightarrow> jsstring list \<Rightarrow> jsstring" where
  "socialMediaKey disasterId tags = js ''social_media_'' @ disasterId @ js ''_'' @ join (js ''_'') tags"

definition fetchSocialMediaReports :: "report list cache \<Rightarrow> int \<Rightarrow> jsstring \<Rightarrow> jsstring list
    \<Rightarrow> report list io" where
  "fetchSocialMediaReports c now disasterId tags =
     (let cacheKey = socialMediaKey disasterId tags in
      try_catch (fetch_body c now disasterId tags cacheKey) (\<lambda>error. ret []))"

subsection \<open>detectPriorityAlerts\<close>

definition urgentKeywords :: "jsstring list" where
  "urgentKeywords = [js ''urgent'', js ''sos'', js ''emergency'', js ''help'', js ''trapped'',
     js ''critical'', js ''evacuation'', js ''danger'']"

definition isPriorityAlert :: "report \<Rightarrow> bool" where
  "isPriorityAlert report =
     (let content = toLowerCase (content report) in
      list_ex (\<lambda>keyword. str_includes content keyword) urgentKeywords
      \<or> priority report = js ''urgent'')"

text \<open>
  What reading the object literal \<open>{ urgent: 3, high: 2, medium: 1, low: 0 }\<close> at a key
  gives: the number of one of its four own properties; at a name that every object
  inherits from \<open>Object.prototype\<close>, the inherited member (a function or an object);
  \<open>undefined\<close> at any other key.
\<close>

datatype looked_up = Number int | Inherited jsstring | Undefined

definition objectPrototypeNames :: "jsstring list" where
  "objectPrototypeNames = [js ''constructor'', js ''hasOwnProperty'', js ''isPrototypeOf'',
     js ''propertyIsEnumerable'', js ''toLocaleString'', js ''toString'', js ''valueOf'',
     js ''__proto__'', js ''__defineGetter__'', js ''__defineSetter__'',
     js ''__lookupGetter__'', js ''__lookupSetter__'']"

definition priorityOrder :: "jsstring \<Rightarrow> looked_up" where
  "priorityOrder p =
     (if p = js ''urgent'' then Number 3
      else if p = js ''high'' then Number 2
      else if p = js ''medium'' then Number 1
      else if p = js ''low'' then Number 0
      else if p \<in> set objectPrototypeNames then Inherited p
      else Undefined)"

text \<open>\<open>priorityOrder[p] || 0\<close>: zero and \<open>undefined\<close> are falsy, an inherited member is not.\<close>

definition priorityOrZero :: "jsstring \<Rightarrow> looked_up" where
  "priorityOrZero p =
     (case priorityOrder p of
        Number n \<Rightarrow> (if n = 0 then Number 0 else Number n)
      | Inherited m \<Rightarrow> Inherited m
      | Undefined \<Rightarrow> Number 0)"

text \<open>
  The comparator handed to \<open>sort\<close>. Subtracting with an operand that is not a number,
  or is \<open>NaN\<close>, gives \<open>NaN\<close>, which is \<open>None\<close> here.
\<close>

definition compareAlerts :: "report \<Rightarrow> report \<Rightarrow> int option" where
  "compareAlerts a b =
     (let aPriority = priorityOrZero (priority a);
          bPriority = priorityOrZero (priority b)
      in if aPriority \<noteq> bPriority then
           (case (aPriority, bPriority) of
              (Number x, Number y) \<Rightarrow> Some (y - x)
            | _ \<Rightarrow> None)
         else
           (case (timestamp b, timestamp a) of
              (Some bTime, Some aTime) \<Rightarrow> Some (bTime - aTime)
            | _ \<Rightarrow> None))"

text \<open>
  \<open>Array.prototype.sort\<close> with a comparator, as V8, the engine of Node, carries it
  out. A comparator result of \<open>NaN\<close> counts as zero, and an element is smaller than
  another when the comparator gives less than zero for the two, in this order.
\<close>

definition sortCompare :: "('a \<Rightarrow> 'a \<Rightarrow> int option) \<Rightarrow> 'a \<Rightarrow> 'a \<Rightarrow> int" where
  "sortCompare cmp x y = (case cmp x y of None \<Rightarrow> 0 | Some v \<Rightarrow> v)"

text \<open>
  The elements at the front that are in order already form a run. The second element is
  compared with the first. When it is smaller, the run is descending: it goes on as long
  as each element is smaller than the one before it, and is then reversed. Otherwise it
  goes on as long as no element is smaller than the one before it. \<open>runAfter\<close> counts
  the elements of the run that follow the second; \<open>countAndMakeRun\<close> gives the run,
  in ascending order, and what follows it.
\<close>

fun runAfter :: "('a \<Rightarrow> 'a \<Rightarrow> int option) \<Rightarrow> bool \<Rightarrow> 'a \<Rightarrow> 'a list \<Rightarrow> nat" where
  "runAfter cmp isDescending previousElement [] = 0"
| "runAfter cmp isDescending previousElement (currentElement # rest) =
     (let order = sortCompare cmp currentElement previousElement
      in if (if isDescending then order \<ge> 0 else order < 0) then 0
         else Suc (runAfter cmp isDescending currentElement rest))"

definition countAndMakeRun :: "('a \<Rightarrow> 'a \<Rightarrow> int option) \<Rightarrow> 'a list \<Rightarrow> 'a list \<times> 'a list" where
  "countAndMakeRun cmp work =
     (case work of
        elementHigh # elementLow # rest \<Rightarrow>
          (let isDescending = sortCompare cmp elementLow elementHigh < 0;
               runLength = 2 + runAfter cmp isDescending elementLow rest
           in (if isDescending then rev (take runLength work) else take runLength work,
               drop runLength work))
      | _ \<Rightarrow> (work, []))"

text \<open>
  Every element after the run is put into the sorted front, at the place that a binary
  search finds for it: behind the elements it is not smaller than, as far as the search
  looks.
\<close>

function binarySearch :: "('a \<Rightarrow> 'a \<Rightarrow> int option) \<Rightarrow> 'a \<Rightarrow> 'a list \<Rightarrow> nat \<Rightarrow> nat \<Rightarrow> nat" where
  "binarySearch cmp pivot work left right =
     (if left < right then
        (let mid = left + (right - left) div 2
         in if sortCompare cmp pivot (work ! mid) < 0 then binarySearch cmp pivot work left mid
            else binarySearch cmp pivot work (mid + 1) right)
      else left)"
  by pat_completeness auto

termination binarySearch
  by (relation "measure (\<lambda>(cmp, pivot, work, left, right). right - left)") auto

declare binarySearch.simps [simp del]

definition binaryInsert :: "('a \<Rightarrow> 'a \<Rightarrow> int option) \<Rightarrow> 'a list \<Rightarrow> 'a \<Rightarrow> 'a list" where
  "binaryInsert cmp work pivot =
     (let left = binarySearch cmp pivot work 0 (length work)
      in take left work @ pivot # drop left work)"

text \<open>
  An array of fewer than two elements is left as it is. These are all the steps of the
  engine on an array of fewer than 64 elements. A longer array the engine cuts into
  pieces, sorts each piece in this way and merges the pieces; the model sorts it in one
  piece, which is the engine's result when the comparator is consistent (the sort is
  stable, and then there is one stable arrangement), and need not be when it is not.
\<close>

definition sortBy :: "('a \<Rightarrow> 'a \<Rightarrow> int option) \<Rightarrow> 'a list \<Rightarrow> 'a list" where
  "sortBy cmp xs =
     (if length xs < 2 then xs
      else (let (run, rest) = countAndMakeRun cmp xs in foldl (binaryInsert cmp) run rest))"

definition detectPriorityAlerts :: "report list \<Rightarrow> report list" where
  "detectPriorityAlerts reports =
     (let priorityAlerts = filter isPriorityAlert reports
      in sortBy compareAlerts priorityAlerts)"

subsection \<open>analyzeSentiment\<close>

definition positiveKeywords :: "jsstring list" where
  "positiveKeywords = [js ''help'', js ''safe'', js ''rescued'', js ''volunteer'', js ''support'',
     js ''relief'']"

definition negativeKeywords :: "jsstring list" where
  "negativeKeywords = [js ''trapped'', js ''danger'', js ''emergency'', js ''critical'',
     js ''urgent'', js ''flood'', js ''fire'']"

definition analyzeOne :: "report \<Rightarrow> annotated_report" where
  "analyzeOne report =
     (let content = toLowerCase (content report);
          positiveCount = int (length (filter (\<lambda>keyword. str_includes content keyword) positiveKeywords));
          negativeCount = int (length (filter (\<lambda>keyword. str_includes content keyword) negativeKeywords));
          sentiment =
            (if negativeCount > positiveCount then js ''negative''
             else if positiveCount > negativeCount then js ''positive''
             else js ''neutral'')
      in report.extend report
           \<lparr> sentiment = sentiment, sentiment_score = positiveCount - negativeCount \<rparr>)"

definition analyzeSentiment :: "report list \<Rightarrow> annotated_report list" where
  "analyzeSentiment reports = map analyzeOne reports"

section \<open>Regular expressions\<close>

text \<open>
  The regular expressions of the source use literal characters, character classes,
  sequence, alternation, greedy repetition, the word boundary \<open>\b\<close> and the anchors
  \<open>^\<close> and \<open>$\<close>, with the flags \<open>i\<close> and \<open>g\<close>. Groups only group here: no
  code reads a capture.
\<close>

datatype regex =
    Chr nat
  | Cls "(nat \<times> nat) list"
  | Eps
  | Seq regex regex
  | Alt regex regex
  | Star regex
  | WordBoundary
  | LineStart
  | LineEnd

text \<open>
  A position in the subject: the text to its left, last character first, and the text
  to its right.
\<close>

type_synonym position = "jsstring \<times> jsstring"

definition inRanges :: "(nat \<times> nat) list \<Rightarrow> nat \<Rightarrow> bool" where
  "inRanges rs c = list_ex (\<lambda>r. fst r \<le> c \<and> c \<le> snd r) rs"

definition asciiUpper :: "nat \<Rightarrow> nat" where
  "asciiUpper c = (if 97 \<le> c \<and> c \<le> 122 then c - 32 else c)"

definition asciiLower :: "nat \<Rightarrow> nat" where
  "asciiLower c = (if 65 \<le> c \<and> c \<le> 90 then c + 32 else c)"

text \<open>
  A character against a class. Under the flag \<open>i\<close> two characters match when they
  canonicalize to the same one; for the classes of the source (ASCII letters, digits,
  white space) that is so exactly when the character, its ASCII upper case or its ASCII
  lower case is in the class, since canonicalization never takes a character beyond
  ASCII to an ASCII one.
\<close>

definition classMatches :: "bool \<Rightarrow> (nat \<times> nat) list \<Rightarrow> nat \<Rightarrow> bool" where
  "classMatches ignoreCase rs c =
     (inRanges rs c \<or> (ignoreCase \<and> (inRanges rs (asciiUpper c) \<or> inRanges rs (asciiLower c))))"

definition isWordChar :: "nat \<Rightarrow> bool" where
  "isWordChar c = inRanges [(48, 57), (65, 90), (95, 95), (97, 122)] c"

definition atWordBoundary :: "position \<Rightarrow> bool" where
  "atWordBoundary p =
     ((case fst p of [] \<Rightarrow> False | c # _ \<Rightarrow> isWordChar c)
      \<noteq> (case snd p of [] \<Rightarrow> False | c # _ \<Rightarrow> isWordChar c))"

text \<open>
  The backtracking matcher: the positions at which a match of the expression that
  starts at \<open>p\<close> can end, in the order in which backtracking tries them. Repetition is
  greedy, and an iteration that consumes nothing is not taken.
\<close>

function rx_ends :: "bool \<Rightarrow> regex \<Rightarrow> position \<Rightarrow> position list" where
  "rx_ends ic (Chr x) p =
     (case snd p of
        [] \<Rightarrow> []
      | c # cs \<Rightarrow> if classMatches ic [(x, x)] c then [(c # fst p, cs)] else [])"
| "rx_ends ic (Cls rs) p =
     (case snd p of
        [] \<Rightarrow> []
      | c # cs \<Rightarrow> if classMatches ic rs c then [(c # fst p, cs)] else [])"
| "rx_ends ic Eps p = [p]"
| "rx_ends ic (Seq r s) p = concat (map (\<lambda>q. rx_ends ic s q) (rx_ends ic r p))"
| "rx_ends ic (Alt r s) p = rx_ends ic r p @ rx_ends ic s p"
| "rx_ends ic (Star r) p =
     concat (map (\<lambda>q. if length (snd q) < length (snd p) then rx_ends ic (Star r) q else [])
       (rx_ends ic r p)) @ [p]"
| "rx_ends ic WordBoundary p = (if atWordBoundary p then [p] else [])"
| "rx_ends ic LineStart p = (if fst p = [] then [p] else [])"
| "rx_ends ic LineEnd p = (if snd p = [] then [p] else [])"
  by pat_completeness auto
termination
  by (relation "measures [\<lambda>(ic, r, p). size r, \<lambda>(ic, r, p). length (snd p)]") auto

declare rx_ends.simps(6) [simp del]

text \<open>The match the engine reports at a position: the first one backtracking finds.\<close>

definition matchAt :: "bool \<Rightarrow> regex \<Rightarrow> position \<Rightarrow> position option" where
  "matchAt ic r p = (case rx_ends ic r p of [] \<Rightarrow> None | q # _ \<Rightarrow> Some q)"

text \<open>
  \<open>exec\<close> from a position on: the leftmost position at which the expression
  matches, with the end of the match.
\<close>

fun execFrom :: "bool \<Rightarrow> regex \<Rightarrow> jsstring \<Rightarrow> jsstring \<Rightarrow> (position \<times> position) option" where
  "execFrom ic r left [] =
     (case matchAt ic r (left, []) of
        Some q \<Rightarrow> Some ((left, []), q)
      | None \<Rightarrow> None)"
| "execFrom ic r left (c # cs) =
     (case matchAt ic r (left, c # cs) of
        Some q \<Rightarrow> Some ((left, c # cs), q)
      | None \<Rightarrow> execFrom ic r (c # left) cs)"

text \<open>The text between the start and the end of a match.\<close>

definition matched :: "position \<Rightarrow> position \<Rightarrow> jsstring" where
  "matched p q = take (length (snd p) - length (snd q)) (snd p)"

text \<open>\<open>r.test(s)\<close>, also the truth value of \<open>s.match(r)\<close> for an expression without \<open>g\<close>.\<close>

definition rx_test :: "bool \<Rightarrow> regex \<Rightarrow> jsstring \<Rightarrow> bool" where
  "rx_test ic r s = (execFrom ic r [] s \<noteq> None)"

text \<open>A match ends at or after the position at which it starts.\<close>

lemma rx_ends_length: "q \<in> set (rx_ends ic r p) \<Longrightarrow> length (snd q) \<le> length (snd p)"
proof (induction ic r p arbitrary: q rule: rx_ends.induct)
  case (4 ic r s p)
  from "4.prems" obtain q' where q': "q' \<in> set (rx_ends ic r p)" "q \<in> set (rx_ends ic s q')"
    by auto
  from "4.IH"(1)[OF q'(1)] "4.IH"(2)[OF q'(1) q'(2)] show ?case by simp
next
  case (6 ic r p)
  show ?case
  proof (cases "q = p")
    case True
    then show ?thesis by simp
  next
    case False
    from "6.prems" rx_ends.simps(6)[of ic r p] have
      "q \<in> set (concat (map (\<lambda>q. if length (snd q) < length (snd p) then rx_ends ic (Star r) q else [])
         (rx_ends ic r p)) @ [p])"
      by metis
    with False obtain q' where q': "q' \<in> set (rx_ends ic r p)"
      "q \<in> set (if length (snd q') < length (snd p) then rx_ends ic (Star r) q' else [])"
      by auto
    then have q2: "length (snd q') < length (snd p)" "q \<in> set (rx_ends ic (Star r) q')"
      by (auto split: if_splits)
    from "6.IH"(2)[OF q'(1) q2(1) q2(2)] q2(1) show ?thesis by simp
  qed
next
  case (5 ic r s p)
  from "5.prems" have "q \<in> set (rx_ends ic r p) \<or> q \<in> set (rx_ends ic s p)"
    by simp
  with "5.IH" show ?case by blast
next
  case (1 ic x p)
  then show ?case by (cases "snd p") (auto split: if_splits)
next
  case (2 ic rs p)
  then show ?case by (cases "snd p") (auto split: if_splits)
next
  case (3 ic p)
  then show ?case by simp
next
  case (7 ic p)
  then show ?case by (simp split: if_splits)
next
  case (8 ic p)
  then show ?case by (simp split: if_splits)
next
  case (9 ic p)
  then show ?case by (simp split: if_splits)
qed

lemma matchAt_length: "matchAt ic r p = Some q \<Longrightarrow> length (snd q) \<le> length (snd p)"
proof -
  assume "matchAt ic r p = Some q"
  then have "q \<in> set (rx_ends ic r p)"
    by (auto simp: matchAt_def split: list.splits)
  then show ?thesis by (rule rx_ends_length)
qed

lemma execFrom_length:
  "execFrom ic r left rest = Some (p, q) \<Longrightarrow>
     length (snd q) \<le> length (snd p) \<and> length (snd p) \<le> length rest"
proof (induction ic r left rest rule: execFrom.induct)
  case (1 ic r left)
  then have "matchAt ic r (left, []) = Some q" "p = (left, [])"
    by (auto split: option.splits)
  with matchAt_length[of ic r "(left, [])" q] show ?case by simp
next
  case (2 ic r left c cs)
  show ?case
  proof (cases "matchAt ic r (left, c # cs)")
    case None
    with "2.prems" have "execFrom ic r (c # left) cs = Some (p, q)" by simp
    with "2.IH"[OF None] show ?thesis by simp
  next
    case (Some q')
    with "2.prems" have "q' = q" "p = (left, c # cs)" by auto
    with Some matchAt_length[of ic r "(left, c # cs)" q] show ?thesis by simp
  qed
qed

text \<open>
  \<open>s.match(r)\<close> for an expression with the flag \<open>g\<close>: the texts of the successive
  matches, each search starting where the last match ended, one character further after
  an empty match. The source reads \<open>null\<close> for the empty list.
\<close>

function matchAllFrom :: "bool \<Rightarrow> regex \<Rightarrow> jsstring \<Rightarrow> jsstring \<Rightarrow> jsstring list" where
  "matchAllFrom ic r left rest =
     (case execFrom ic r left rest of
        None \<Rightarrow> []
      | Some (p, q) \<Rightarrow>
          matched p q #
          (if matched p q \<noteq> [] then matchAllFrom ic r (fst q) (snd q)
           else (case snd q of
                   [] \<Rightarrow> []
                 | c # cs \<Rightarrow> matchAllFrom ic r (c # fst q) cs)))"
  by pat_completeness auto
termination
proof (relation "measure (\<lambda>(ic, r, left, rest). length rest)")
  show "wf (measure (\<lambda>(ic, r, left, rest). length rest))" by simp
next
  fix ic r left rest x2 p q
  assume "execFrom ic r left rest = Some x2" "(p, q) = x2" "matched p q \<noteq> []"
  then have "execFrom ic r left rest = Some (p, q)" "length (snd q) < length (snd p)"
    by (auto simp: matched_def)
  with execFrom_length[of ic r left rest p q]
  show "((ic, r, fst q, snd q), (ic, r, left, rest)) \<in> measure (\<lambda>(ic, r, left, rest). length rest)"
    by (simp add: case_prod_unfold)
next
  fix ic r left rest x2 p q c cs
  assume "execFrom ic r left rest = Some x2" "(p, q) = x2" "snd q = c # cs"
  then have "execFrom ic r left rest = Some (p, q)" by simp
  with execFrom_length[of ic r left rest p q] \<open>snd q = c # cs\<close>
  show "((ic, r, c # fst q, cs), (ic, r, left, rest)) \<in> measure (\<lambda>(ic, r, left, rest). length rest)"
    by (simp add: case_prod_unfold)
qed

definition matchGlobal :: "bool \<Rightarrow> regex \<Rightarrow> jsstring \<Rightarrow> jsstring list" where
  "matchGlobal ic r s = matchAllFrom ic r [] s"

text \<open>\<open>s.replace(r, t)\<close> for an expression without \<open>g\<close>: the first match is replaced.\<close>

definition replaceFirst :: "bool \<Rightarrow> regex \<Rightarrow> jsstring \<Rightarrow> jsstring \<Rightarrow> jsstring" where
  "replaceFirst ic r s t =
     (case execFrom ic r [] s of
        None \<Rightarrow> s
      | Some (p, q) \<Rightarrow> rev (fst p) @ t @ snd q)"

text \<open>
  \<open>s.replace(r, t)\<close> for an expression with the flag \<open>g\<close>: every match is
  replaced, the matches found as \<open>matchAllFrom\<close> finds them.
\<close>

function replaceAllFrom :: "bool \<Rightarrow> regex \<Rightarrow> jsstring \<Rightarrow> jsstring \<Rightarrow> jsstring \<Rightarrow> jsstring" where
  "replaceAllFrom ic r t left rest =
     (case execFrom ic r left rest of
        None \<Rightarrow> rest
      | Some (p, q) \<Rightarrow>
          take (length rest - length (snd p)) rest @ t @
          (if matched p q \<noteq> [] then replaceAllFrom ic r t (fst q) (snd q)
           else (case snd q of
                   [] \<Rightarrow> []
                 | c # cs \<Rightarrow> c # replaceAllFrom ic r t (c # fst q) cs)))"
  by pat_completeness auto
termination
proof (relation "measure (\<lambda>(ic, r, t, left, rest). length rest)")
  show "wf (measure (\<lambda>(ic, r, t, left, rest). length rest))" by simp
next
  fix ic r t left rest x2 p q
  assume "execFrom ic r left rest = Some x2" "(p, q) = x2" "matched p q \<noteq> []"
  then have "execFrom ic r left rest = Some (p, q)" "length (snd q) < length (snd p)"
    by (auto simp: matched_def)
  with execFrom_length[of ic r left rest p q]
  show "((ic, r, t, fst q, snd q), (ic, r, t, left, rest))
          \<in> measure (\<lambda>(ic, r, t, left, rest). length rest)"
    by (simp add: case_prod_unfold)
next
  fix ic r t left rest x2 p q c cs
  assume "execFrom ic r left rest = Some x2" "(p, q) = x2" "snd q = c # cs"
  then have "execFrom ic r left rest = Some (p, q)" by simp
  with execFrom_length[of ic r left rest p q] \<open>snd q = c # cs\<close>
  show "((ic, r, t, c # fst q, cs), (ic, r, t, left, rest))
          \<in> measure (\<lambda>(ic, r, t, left, rest). length rest)"
    by (simp add: case_prod_unfold)
qed

definition replaceGlobal :: "bool \<Rightarrow> regex \<Rightarrow> jsstring \<Rightarrow> jsstring \<Rightarrow> jsstring" where
  "replaceGlobal ic r s t = replaceAllFrom ic r t [] s"

text \<open>The code units that \<open>\s\<close> matches and that \<open>trim\<close> removes.\<close>

definition whiteSpaceRanges :: "(nat \<times> nat) list" where
  "whiteSpaceRanges = [(9, 13), (32, 32), (160, 160), (5760, 5760), (8192, 8202), (8232, 8233),
     (8239, 8239), (8287, 8287), (12288, 12288), (65279, 65279)]"

definition trim :: "jsstring \<Rightarrow> jsstring" where
  "trim s = rev (dropWhile (inRanges whiteSpaceRanges) (rev (dropWhile (inRanges whiteSpaceRanges) s)))"

text \<open>Shorthands for writing the expressions of the source.\<close>

definition lit :: "string \<Rightarrow> regex" where
  "lit w = foldr (\<lambda>c r. Seq (Chr (of_char c)) r) w Eps"

definition seqs :: "regex list \<Rightarrow> regex" where
  "seqs rs = foldr Seq rs Eps"

fun oneOf :: "string list \<Rightarrow> regex" where
  "oneOf [] = Cls []"
| "oneOf [w] = lit w"
| "oneOf (w # v # ws) = Alt (lit w) (oneOf (v # ws))"

definition plus :: "regex \<Rightarrow> regex" where
  "plus r = Seq r (Star r)"

definition upperLetter :: regex where
  "upperLetter = Cls [(65, 90)]"

definition lowerLetter :: regex where
  "lowerLetter = Cls [(97, 122)]"

definition digit :: regex where
  "digit = Cls [(48, 57)]"

definition whiteSpace :: regex where
  "whiteSpace = Cls whiteSpaceRanges"

text \<open>\<open>[A-Z][a-z]+\<close> and \<open>[A-Z][a-z]+(?:\s+[A-Z][a-z]+)*\<close>.\<close>

definition capitalized :: regex where
  "capitalized = Seq upperLetter (plus lowerLetter)"

definition capitalizedPhrase :: regex where
  "capitalizedPhrase = Seq capitalized (Star (Seq (plus whiteSpace) capitalized))"

section \<open>Location resolver: the pattern fallback\<close>

text \<open>
  The five expressions of \<open>extractLocationWithPatterns\<close>, in the order of the source,
  each with its flag \<open>i\<close>; all carry the flag \<open>g\<close>.
\<close>

definition cityStatePattern :: "bool \<times> regex" where
  "cityStatePattern =
     (False, seqs [WordBoundary, capitalizedPhrase, Chr 44, Star whiteSpace,
        Alt (Seq upperLetter upperLetter) capitalized, WordBoundary])"

definition streetAddressPattern :: "bool \<times> regex" where
  "streetAddressPattern =
     (True, seqs [WordBoundary, plus digit, plus whiteSpace, capitalizedPhrase, plus whiteSpace,
        oneOf [''Street'', ''St'', ''Avenue'', ''Ave'', ''Road'', ''Rd'', ''Boulevard'', ''Blvd'',
          ''Drive'', ''Dr'', ''Lane'', ''Ln'', ''Way'', ''Place'', ''Pl''],
        WordBoundary])"

definition areaPattern :: "bool \<times> regex" where
  "areaPattern =
     (True, seqs [WordBoundary, oneOf [''in'', ''at'', ''near'', ''around''], plus whiteSpace,
        capitalizedPhrase, plus whiteSpace,
        oneOf [''Area'', ''District'', ''Neighborhood'', ''Heights'', ''Park'', ''Center'',
          ''Square'', ''Plaza''],
        WordBoundary])"

definition landmarkPattern :: "bool \<times> regex" where
  "landmarkPattern =
     (True, seqs [WordBoundary, oneOf [''at'', ''near''], plus whiteSpace,
        capitalizedPhrase, plus whiteSpace,
        oneOf [''Bridge'', ''Building'', ''Hospital'', ''School'', ''University'', ''Mall'',
          ''Airport'', ''Station''],
        WordBoundary])"

definition generalPattern :: "bool \<times> regex" where
  "generalPattern =
     (False, seqs [WordBoundary, oneOf [''in'', ''at'', ''near''], plus whiteSpace,
        capitalizedPhrase, WordBoundary])"

definition locationPatterns :: "(bool \<times> regex) list" where
  "locationPatterns =
     [cityStatePattern, streetAddressPattern, areaPattern, landmarkPattern, generalPattern]"

text \<open>\<open>/^(?:in|at|near|around)\s+/i\<close>, removed from the front of every match.\<close>

definition leadingPreposition :: regex where
  "leadingPreposition = seqs [LineStart, oneOf [''in'', ''at'', ''near'', ''around''], plus whiteSpace]"

definition cleanMatch :: "jsstring \<Rightarrow> jsstring" where
  "cleanMatch m = trim (replaceFirst True leadingPreposition m [])"

text \<open>The stop words: \<open>/^(the|and|...|should)$/i\<close>.\<close>

definition stopWords :: "string list" where
  "stopWords = [''the'', ''and'', ''but'', ''for'', ''are'', ''was'', ''were'', ''been'', ''have'', ''has'',
     ''had'', ''will'', ''would'', ''could'', ''should'']"

definition stopWord :: regex where
  "stopWord = seqs [LineStart, oneOf stopWords, LineEnd]"

text \<open>One turn of the loop over the patterns: the cleaned matches are pushed.\<close>

definition pushMatches :: "jsstring \<Rightarrow> jsstring list \<Rightarrow> bool \<times> regex \<Rightarrow> jsstring list" where
  "pushMatches description locations pattern =
     (let matches = matchGlobal (fst pattern) (snd pattern) description
      in if matches \<noteq> [] then locations @ map cleanMatch matches else locations)"

text \<open>\<open>[...new Set(xs)]\<close>: the first occurrence of every element, in order.\<close>

definition uniqueInOrder :: "'a list \<Rightarrow> 'a list" where
  "uniqueInOrder xs = foldl (\<lambda>seen x. if x \<in> set seen then seen else seen @ [x]) [] xs"

definition keepsLocation :: "jsstring \<Rightarrow> bool" where
  "keepsLocation loc = (length loc > 2 \<and> \<not> rx_test True stopWord loc)"

definition extractLocationWithPatterns :: "jsstring \<Rightarrow> jsstring option" where
  "extractLocationWithPatterns description =
     (let locations = foldl (pushMatches description) [] locationPatterns;
          filteredLocations = filter keepsLocation (uniqueInOrder locations)
      in if length filteredLocations > 0 then Some (filteredLocations ! 0) else None)"

section \<open>Values of the external services\<close>

text \<open>
  What an HTTP response body holds once parsed, and what reading a property gives. The
  fields of an object are a list of names with values, each name once.
\<close>

datatype jsval =
    JUndefined
  | JNull
  | JBool bool
  | JNum real
  | JStr jsstring
  | JArr "jsval list"
  | JObj "(jsstring \<times> jsval) list"

definition typeError :: error where
  "typeError = Error (js ''TypeError'')"

text \<open>
  \<open>v.name\<close> for the names the services read (\<open>entity_group\<close>, \<open>word\<close>,
  \<open>label\<close>, \<open>score\<close>), none of which a primitive or an array has: reading from
  \<open>null\<close> or \<open>undefined\<close> throws a TypeError (its message is the engine's; the
  model keeps one text for all); an object gives its field or \<open>undefined\<close>.
\<close>

definition getProp :: "jsval \<Rightarrow> jsstring \<Rightarrow> error + jsval" where
  "getProp v name =
     (case v of
        JUndefined \<Rightarrow> Inl typeError
      | JNull \<Rightarrow> Inl typeError
      | JObj props \<Rightarrow> Inr (case map_of props name of Some x \<Rightarrow> x | None \<Rightarrow> JUndefined)
      | _ \<Rightarrow> Inr JUndefined)"

definition truthy :: "jsval \<Rightarrow> bool" where
  "truthy v =
     (case v of
        JUndefined \<Rightarrow> False
      | JNull \<Rightarrow> False
      | JBool b \<Rightarrow> b
      | JNum x \<Rightarrow> x \<noteq> 0
      | JStr s \<Rightarrow> s \<noteq> []
      | _ \<Rightarrow> True)"

text \<open>
  Converting a value to a text or to a number. An object is converted by its
  \<open>toString\<close> and \<open>valueOf\<close>. The object of a response body inherits both, and the
  inherited ones give the text \<open>[object Object]\<close>; but when the object has a field
  named \<open>toString\<close> of its own, that field is found first, it is no function, the
  inherited \<open>valueOf\<close> returns the object itself, and the conversion throws a TypeError.
  An array is converted by joining the texts of its elements, so its conversion throws
  when that of an element does. \<open>convertible\<close> holds of the values whose conversion
  does not throw.
\<close>

fun convertible :: "jsval \<Rightarrow> bool" where
  "convertible (JArr xs) = list_all convertible xs"
| "convertible (JObj props) = (map_of props (js ''toString'') = None)"
| "convertible v = True"

text \<open>
  The text of a convertible value, as a template literal and \<open>join\<close> make it. The
  text of a number is the runtime's (\<open>numberText\<close>). In a \<open>join\<close>, also the one
  that makes the text of an array, \<open>null\<close> and \<open>undefined\<close> give the empty text.
\<close>

fun toText :: "(real \<Rightarrow> jsstring) \<Rightarrow> jsval \<Rightarrow> jsstring" where
  "toText numberText JUndefined = js ''undefined''"
| "toText numberText JNull = js ''null''"
| "toText numberText (JBool b) = (if b then js ''true'' else js ''false'')"
| "toText numberText (JNum x) = numberText x"
| "toText numberText (JStr s) = s"
| "toText numberText (JArr xs) =
     join (js '','')
       (map (\<lambda>x. if x = JUndefined \<or> x = JNull then [] else toText numberText x) xs)"
| "toText numberText (JObj props) = js ''[object Object]''"

text \<open>The conversion to a text where it may throw: in a template literal, and in \<open>join\<close>.\<close>

definition textOf :: "(real \<Rightarrow> jsstring) \<Rightarrow> jsval \<Rightarrow> error + jsstring" where
  "textOf numberText v = (if convertible v then Inr (toText numberText v) else Inl typeError)"

definition joinValues :: "(real \<Rightarrow> jsstring) \<Rightarrow> jsstring \<Rightarrow> jsval list \<Rightarrow> error + jsstring" where
  "joinValues numberText sep xs =
     (if list_all convertible xs then
        Inr (join sep
          (map (\<lambda>x. if x = JUndefined \<or> x = JNull then [] else toText numberText x) xs))
      else Inl typeError)"

text \<open>Pure steps that may throw, and a filter whose predicate may throw.\<close>

definition bindE :: "error + 'a \<Rightarrow> ('a \<Rightarrow> error + 'b) \<Rightarrow> error + 'b" where
  "bindE m f = (case m of Inl e \<Rightarrow> Inl e | Inr x \<Rightarrow> f x)"

fun filterE :: "('a \<Rightarrow> error + bool) \<Rightarrow> 'a list \<Rightarrow> error + 'a list" where
  "filterE f [] = Inr []"
| "filterE f (x # xs) =
     bindE (f x) (\<lambda>keep. bindE (filterE f xs) (\<lambda>ys. Inr (if keep then x # ys else ys)))"

fun mapE :: "('a \<Rightarrow> error + 'b) \<Rightarrow> 'a list \<Rightarrow> error + 'b list" where
  "mapE f [] = Inr []"
| "mapE f (x # xs) = bindE (f x) (\<lambda>y. bindE (mapE f xs) (\<lambda>ys. Inr (y # ys)))"

definition pure :: "error + 'a \<Rightarrow> 'a io" where
  "pure outcome = (outcome, [])"

section \<open>GeminiService\<close>

text \<open>
  What the service is given and what answers it: the two environment variables of the
  constructor; the cache, seen at the keys of the location results and at the keys of
  the image results; the named-entity service, the image download, the classification
  service and the header request, each answering a response body or failing (no
  connection, timeout, a status outside 2xx); and the runtime's own functions that the
  model does not compute: \<open>Buffer.from(s).toString('base64')\<close>, the text of a number,
  the text of \<open>(x * 100).toFixed(1)\<close> for a convertible \<open>x\<close>, the clock as an ISO text,
  and whether the URL parser accepts what follows the scheme of a text. The fields \<open>location\<close>, \<open>confidence\<close>,
  \<open>method\<close> and \<open>error\<close> of a location result are \<open>ex_location\<close>,
  \<open>ex_confidence\<close>, \<open>ex_method\<close> and \<open>ex_error\<close> here; \<open>ex_error\<close> is
  \<open>None\<close> where the source's object has no such field.
\<close>

record extraction_result =
  ex_location :: jsstring
  ex_confidence :: real
  ex_method :: jsstring
  ex_error :: "jsstring option"

record verification_result =
  status :: jsstring
  analysis :: jsstring
  confidence :: jsval
  details :: "(jsstring \<times> jsval) list"

record head_response =
  content_type :: "jsstring option"
  content_length :: "jsstring option"

record gemini =
  GEMINI_API_KEY :: "jsstring option"
  HUGGINGFACE_API_KEY :: "jsstring option"
  locationCache :: "extraction_result cache"
  imageCache :: "verification_result cache"
  nerService :: "jsstring \<Rightarrow> error + jsval"
  imageDownload :: "jsstring \<Rightarrow> error + nat list"
  classifyService :: "nat list \<Rightarrow> error + jsval"
  headService :: "jsstring \<Rightarrow> error + head_response"
  base64 :: "jsstring \<Rightarrow> jsstring"
  numberText :: "real \<Rightarrow> jsstring"
  percentText :: "jsval \<Rightarrow> jsstring"
  nowISO :: jsstring
  urlRestParses :: "jsstring \<Rightarrow> bool"

text \<open>
  \<open>this.hfToken = process.env.GEMINI_API_KEY || process.env.HUGGINGFACE_API_KEY\<close>, and
  its truth value: a variable that is not set, or is empty, is falsy.
\<close>

definition hfToken :: "gemini \<Rightarrow> jsstring option" where
  "hfToken g =
     (case GEMINI_API_KEY g of
        Some k \<Rightarrow> if k \<noteq> [] then Some k else HUGGINGFACE_API_KEY g
      | None \<Rightarrow> HUGGINGFACE_API_KEY g)"

definition truthyText :: "jsstring option \<Rightarrow> bool" where
  "truthyText t = (case t of None \<Rightarrow> False | Some s \<Rightarrow> s \<noteq> [])"

subsection \<open>extractLocationWithNER\<close>

text \<open>\<open>/\b(street|avenue|road|park|bridge|center)\b/i\<close>.\<close>

definition placeWord :: regex where
  "placeWord = seqs [WordBoundary,
     oneOf [''street'', ''avenue'', ''road'', ''park'', ''bridge'', ''center''], WordBoundary]"

text \<open>
  The first filter. \<open>ent.word.match(...)\<close> throws unless \<open>ent.word\<close> is a string.
\<close>

definition keepEntity :: "jsval \<Rightarrow> error + bool" where
  "keepEntity ent =
     bindE (getProp ent (js ''entity_group'')) (\<lambda>entity_group.
       if entity_group = JStr (js ''LOC'') \<or> entity_group = JStr (js ''ORG'') then Inr True
       else if entity_group = JStr (js ''MISC'') then
         bindE (getProp ent (js ''word'')) (\<lambda>word.
           case word of
             JStr w \<Rightarrow> Inr (rx_test True placeWord w)
           | _ \<Rightarrow> Inl typeError)
       else Inr False)"

definition keepWord :: "jsval \<Rightarrow> bool" where
  "keepWord word = (truthy word \<and> word \<noteq> JStr (js ''[CLS]'') \<and> word \<noteq> JStr (js ''[SEP]''))"

definition entityLocations :: "(real \<Rightarrow> jsstring) \<Rightarrow> jsval list \<Rightarrow> error + jsstring" where
  "entityLocations numText entities =
     bindE (filterE keepEntity entities) (\<lambda>kept.
       bindE (mapE (\<lambda>ent. getProp ent (js ''word'')) kept) (\<lambda>words.
         bindE (joinValues numText (js '' '') (filter keepWord words)) (\<lambda>joined.
           Inr (trim (replaceGlobal False (lit ''##'') joined [])))))"

text \<open>
  The result is a non-empty text or nothing (\<open>null\<close>, and \<open>undefined\<close> when the
  response is not an array). Without a token no request is made.
\<close>

definition extractLocationWithNER :: "gemini \<Rightarrow> jsstring \<Rightarrow> jsstring option io" where
  "extractLocationWithNER g description =
     try_catch
       (if \<not> truthyText (hfToken g) then ret None
        else
          bind (call (NerPost description) (nerService g description)) (\<lambda>entities.
            case entities of
              JArr ents \<Rightarrow>
                bind (pure (entityLocations (numberText g) ents)) (\<lambda>locations.
                  ret (if locations \<noteq> [] then Some locations else None))
            | _ \<Rightarrow> ret None))
       (\<lambda>error. ret None)"

subsection \<open>extractLocation\<close>

definition locationKey :: "gemini \<Rightarrow> jsstring \<Rightarrow> jsstring" where
  "locationKey g description = js ''location_extract_'' @ take 50 (base64 g description)"

definition resultData :: "jsstring option \<Rightarrow> extraction_result" where
  "resultData extractedLocation =
     \<lparr> ex_location =
         (case extractedLocation of
            Some l \<Rightarrow> if l \<noteq> [] then l else js ''Location extraction failed''
          | None \<Rightarrow> js ''Location extraction failed''),
       ex_confidence = (if truthyText extractedLocation then 0.8 else 0.1),
       ex_method = (if truthyText extractedLocation then js ''NER+Patterns'' else js ''Failed''),
       ex_error = None \<rparr>"

text \<open>The fallback: the patterns are tried when the NER step gave nothing, or \<open>Unknown\<close>.\<close>

definition locationOrFallback :: "jsstring option \<Rightarrow> jsstring \<Rightarrow> jsstring option" where
  "locationOrFallback fromNER description =
     (if \<not> truthyText fromNER \<or> fromNER = Some (js ''Unknown'')
      then extractLocationWithPatterns description
      else fromNER)"

definition extract_body :: "gemini \<Rightarrow> jsstring \<Rightarrow> jsstring \<Rightarrow> extraction_result io" where
  "extract_body g description cacheKey =
     bind (cacheGet (locationCache g) cacheKey) (\<lambda>cached.
       case cached of
         Some v \<Rightarrow> ret v
       | None \<Rightarrow>
           bind (extractLocationWithNER g description) (\<lambda>fromNER.
             (let extractedLocation = locationOrFallback fromNER description;
                  result_data = resultData extractedLocation
              in bind (cacheSet (locationCache g) cacheKey result_data None)
                   (\<lambda>_. ret result_data))))"

text \<open>The result of the \<open>catch\<close> block.\<close>

definition failureResult :: "error \<Rightarrow> extraction_result" where
  "failureResult error =
     \<lparr> ex_location = js ''Location extraction failed'',
       ex_confidence = 0,
       ex_method = js ''Error'',
       ex_error = Some (message error) \<rparr>"

definition extractLocation :: "gemini \<Rightarrow> jsstring \<Rightarrow> extraction_result io" where
  "extractLocation g description =
     (let cacheKey = locationKey g description in
      try_catch (extract_body g description cacheKey) (\<lambda>error. ret (failureResult error)))"

subsection \<open>isValidImageUrl\<close>

text \<open>
  \<open>new URL(url)\<close> without a base. The parser drops leading and trailing control
  characters and spaces and every tab and newline, then reads the scheme: a letter,
  then letters, digits, \<open>+\<close>, \<open>-\<close> and \<open>.\<close>, up to a colon, in lower case. A text
  without such a scheme is no URL. What follows the scheme may still be refused (a host
  that is not valid, say); that part is the environment's \<open>urlRestParses\<close>. The
  \<open>protocol\<close> of the URL is its scheme with the colon.
\<close>

definition urlInput :: "jsstring \<Rightarrow> jsstring" where
  "urlInput s =
     filter (\<lambda>c. c \<noteq> 9 \<and> c \<noteq> 10 \<and> c \<noteq> 13)
       (rev (dropWhile (\<lambda>c. c \<le> 32) (rev (dropWhile (\<lambda>c. c \<le> 32) s))))"

definition isAsciiAlpha :: "nat \<Rightarrow> bool" where
  "isAsciiAlpha c = inRanges [(65, 90), (97, 122)] c"

definition isSchemeChar :: "nat \<Rightarrow> bool" where
  "isSchemeChar c = inRanges [(48, 57), (65, 90), (97, 122), (43, 43), (45, 46)] c"

fun schemeState :: "jsstring \<Rightarrow> jsstring \<Rightarrow> jsstring option" where
  "schemeState buffer [] = None"
| "schemeState buffer (c # cs) =
     (if isSchemeChar c then schemeState (buffer @ [asciiLower c]) cs
      else if c = 58 then Some buffer
      else None)"

definition urlScheme :: "jsstring \<Rightarrow> jsstring option" where
  "urlScheme s =
     (case urlInput s of
        [] \<Rightarrow> None
      | c # cs \<Rightarrow> if isAsciiAlpha c then schemeState [asciiLower c] cs else None)"

definition newURL :: "gemini \<Rightarrow> jsstring \<Rightarrow> error + jsstring" where
  "newURL g url =
     (case urlScheme url of
        None \<Rightarrow> Inl (Error (js ''Invalid URL''))
      | Some scheme \<Rightarrow>
          if urlRestParses g url then Inr (scheme @ js '':'')
          else Inl (Error (js ''Invalid URL'')))"

definition isValidImageUrl :: "gemini \<Rightarrow> jsstring \<Rightarrow> bool" where
  "isValidImageUrl g url =
     (case newURL g url of
        Inl e \<Rightarrow> False
      | Inr protocol \<Rightarrow> protocol = js ''http:'' \<or> protocol = js ''https:'')"

subsection \<open>analyzeImageWithHuggingFace\<close>

definition disasterKeywords :: "jsstring list" where
  "disasterKeywords = [js ''flood'', js ''fire'', js ''damage'', js ''destruction'',
     js ''emergency'', js ''disaster'']"

text \<open>
  \<open>(score * 100).toFixed(1)\<close>: the multiplication converts the score to a number, and
  throws when that conversion does.
\<close>

definition scorePercent :: "gemini \<Rightarrow> jsval \<Rightarrow> error + jsstring" where
  "scorePercent g score = (if convertible score then Inr (percentText g score) else Inl typeError)"

text \<open>
  What is made of the classification response. For a non-empty array the first element
  is read: the texts of its \<open>label\<close> and of its \<open>score\<close> as a percentage go into the
  analysis text, the score becomes the confidence, and \<open>label.toLowerCase()\<close> throws
  unless the label is a string. A response of any other shape leaves the initial values
  as they are.
\<close>

definition classified :: "gemini \<Rightarrow> nat list \<Rightarrow> jsval \<Rightarrow> jsstring \<Rightarrow> jsstring \<Rightarrow> jsval
    \<Rightarrow> verification_result" where
  "classified g imageData response statusText analysisText confidenceValue =
     \<lparr> status = statusText, analysis = analysisText, confidence = confidenceValue,
       details = [(js ''raw_analysis'', response),
                  (js ''image_size'', JNum (real (length imageData))),
                  (js ''timestamp'', JStr (nowISO g))] \<rparr>"

definition classification :: "gemini \<Rightarrow> nat list \<Rightarrow> jsval \<Rightarrow> error + verification_result" where
  "classification g imageData response =
     (case response of
        JArr (topResult # others) \<Rightarrow>
          bindE (getProp topResult (js ''label'')) (\<lambda>label.
            bindE (textOf (numberText g) label) (\<lambda>labelText.
              bindE (getProp topResult (js ''score'')) (\<lambda>score.
                bindE (scorePercent g score) (\<lambda>percent.
                  (let analysisText = js ''Image classification: '' @ labelText
                         @ js '' (confidence: '' @ percent @ js ''%)''
                   in case label of
                        JStr l \<Rightarrow>
                          if list_ex (\<lambda>keyword. str_includes (toLowerCase l) keyword)
                               disasterKeywords
                          then Inr (classified g imageData response (js ''authentic'')
                                 (analysisText @ js '' - Appears to be disaster-related content'')
                                 score)
                          else Inr (classified g imageData response (js ''analyzed'') analysisText
                                 score)
                      | _ \<Rightarrow> Inl typeError)))))
      | _ \<Rightarrow>
          Inr (classified g imageData response (js ''analyzed'') (js ''Image analyzed successfully'')
            (JNum 0.7)))"

text \<open>
  The image is downloaded and sent to the classification service. Whatever is thrown on
  the way is thrown again with a longer message.
\<close>

definition analyzeImageWithHuggingFace :: "gemini \<Rightarrow> jsstring \<Rightarrow> verification_result io" where
  "analyzeImageWithHuggingFace g imageUrl =
     try_catch
       (bind (call (ImageGet imageUrl) (imageDownload g imageUrl)) (\<lambda>imageData.
          bind (call ClassifyPost (classifyService g imageData)) (\<lambda>response.
            pure (classification g imageData response))))
       (\<lambda>error. throw (Error (js ''Hugging Face analysis failed: '' @ message error)))"

subsection \<open>analyzeImageBasic\<close>

definition headerValue :: "jsstring option \<Rightarrow> jsval" where
  "headerValue h = (case h of None \<Rightarrow> JUndefined | Some s \<Rightarrow> JStr s)"

definition analyzeImageBasic :: "gemini \<Rightarrow> jsstring \<Rightarrow> verification_result io" where
  "analyzeImageBasic g imageUrl =
     try_catch
       (bind (call (HeadRequest imageUrl) (headService g imageUrl)) (\<lambda>response.
          (let contentType = content_type response;
               contentLength = content_length response
           in if \<not> (case contentType of
                        None \<Rightarrow> False
                      | Some t \<Rightarrow> t \<noteq> [] \<and> prefix (js ''image/'') t) then
                ret \<lparr> status = js ''invalid'',
                      analysis = js ''URL does not point to a valid image'',
                      confidence = JNum 0,
                      details = [(js ''content_type'', headerValue contentType)] \<rparr>
              else
                ret \<lparr> status = js ''basic_check'',
                      analysis = js ''Image URL validated. Type: ''
                        @ toText (numberText g) (headerValue contentType)
                        @ js '', Size: '' @ toText (numberText g) (headerValue contentLength)
                        @ js '' bytes'',
                      confidence = JNum 0.5,
                      details = [(js ''content_type'', headerValue contentType),
                                 (js ''content_length'', headerValue contentLength),
                                 (js ''method'', JStr (js ''basic_validation''))] \<rparr>)))
       (\<lambda>error. throw (Error (js ''Basic image validation failed: '' @ message error)))"

subsection \<open>performImageVerification and verifyImage\<close>

text \<open>The three results that the two functions build themselves.\<close>

definition invalidUrlResult :: verification_result where
  "invalidUrlResult =
     \<lparr> status = js ''invalid'',
       analysis = js ''Invalid image URL provided'',
       confidence = JNum 0,
       details = [(js ''reason'', JStr (js ''Invalid URL format''))] \<rparr>"

definition analysisFailed :: "error \<Rightarrow> verification_result" where
  "analysisFailed error =
     \<lparr> status = js ''error'',
       analysis = js ''Image analysis failed: '' @ message error,
       confidence = JNum 0,
       details = [(js ''error'', JStr (message error))] \<rparr>"

definition verificationFailed :: "gemini \<Rightarrow> error \<Rightarrow> verification_result" where
  "verificationFailed g error =
     \<lparr> status = js ''error'',
       analysis = js ''Image verification failed due to technical error'',
       confidence = JNum 0,
       details = [(js ''error'', JStr (message error)),
                  (js ''timestamp'', JStr (nowISO g))] \<rparr>"

definition performImageVerification :: "gemini \<Rightarrow> jsstring \<Rightarrow> verification_result io" where
  "performImageVerification g imageUrl =
     try_catch
       (if \<not> isValidImageUrl g imageUrl then ret invalidUrlResult
        else if truthyText (hfToken g) then analyzeImageWithHuggingFace g imageUrl
        else analyzeImageBasic g imageUrl)
       (\<lambda>error. ret (analysisFailed error))"

definition imageKey :: "gemini \<Rightarrow> jsstring \<Rightarrow> jsstring" where
  "imageKey g imageUrl = js ''image_verify_'' @ take 50 (base64 g imageUrl)"

definition verify_body :: "gemini \<Rightarrow> jsstring \<Rightarrow> jsstring \<Rightarrow> verification_result io" where
  "verify_body g imageUrl cacheKey =
     bind (cacheGet (imageCache g) cacheKey) (\<lambda>cached.
       case cached of
         Some v \<Rightarrow> ret v
       | None \<Rightarrow>
           bind (performImageVerification g imageUrl) (\<lambda>verificationResult.
             bind (cacheSet (imageCache g) cacheKey verificationResult None)
               (\<lambda>_. ret verificationResult)))"

definition verifyImage :: "gemini \<Rightarrow> jsstring \<Rightarrow> verification_result io" where
  "verifyImage g imageUrl =
     (let cacheKey = imageKey g imageUrl in
      try_catch (verify_body g imageUrl cacheKey) (\<lambda>error. ret (verificationFailed g error)))"

chapter \<open>Readings of the specification and sample inputs\<close>

section \<open>Feed triage\<close>

text \<open>
  The rank the specification gives a priority: urgent 3, high 2, medium 1, anything
  else 0; and the order it asks of the alerts: rank descending, then timestamp
  descending. Two reports of one rank are in that order only when both have a timestamp
  that can be read.
\<close>

definition priorityRank :: "jsstring \<Rightarrow> int" where
  "priorityRank p =
     (if p = js ''urgent'' then 3
      else if p = js ''high'' then 2
      else if p = js ''medium'' then 1
      else 0)"

definition alertOrder :: "report \<Rightarrow> report \<Rightarrow> bool" where
  "alertOrder a b =
     (priorityRank (priority a) > priorityRank (priority b)
      \<or> (priorityRank (priority a) = priorityRank (priority b)
         \<and> (case (timestamp a, timestamp b) of
               (Some aTime, Some bTime) \<Rightarrow> aTime \<ge> bTime
             | _ \<Rightarrow> False)))"

text \<open>
  The number of occurrences of a word in a text (every position at which it starts), and
  the score the specification's words describe: occurrences of the positive vocabulary
  minus occurrences of the negative vocabulary, in the lower-cased content.
\<close>

fun occurrences :: "jsstring \<Rightarrow> jsstring \<Rightarrow> nat" where
  "occurrences k [] = 0"
| "occurrences k (c # cs) = (if prefix k (c # cs) then 1 else 0) + occurrences k cs"

definition occurrenceScore :: "jsstring \<Rightarrow> int" where
  "occurrenceScore text =
     int (sum_list (map (\<lambda>k. occurrences k (toLowerCase text)) positiveKeywords))
     - int (sum_list (map (\<lambda>k. occurrences k (toLowerCase text)) negativeKeywords))"

text \<open>The vocabulary words that occur in a text, whatever the case of its letters.\<close>

definition wordsFound :: "jsstring list \<Rightarrow> jsstring \<Rightarrow> jsstring set" where
  "wordsFound vocabulary text = {k \<in> set vocabulary. \<exists>w. sublist w text \<and> toLowerCase w = k}"

text \<open>A report with a given content, priority and timestamp, and a cache that fails.\<close>

definition sampleReport :: "jsstring \<Rightarrow> jsstring \<Rightarrow> int \<Rightarrow> report" where
  "sampleReport c p t =
     \<lparr> report_id = js ''r'', user = js ''u'', content = c, timestamp = Some t, priority = p,
       location = [], report_keywords = [], platform = js ''Twitter'', verified = False,
       engagement = \<lparr> likes = 0, shares = 0, replies = 0 \<rparr> \<rparr>"

definition readFailingCache :: "'v cache" where
  "readFailingCache =
     \<lparr> cache_get = (\<lambda>k. Inl (Error (js ''cache read failed''))),
       cache_set = (\<lambda>k v ttl. Inr ()) \<rparr>"

definition writeFailingCache :: "'v cache" where
  "writeFailingCache =
     \<lparr> cache_get = (\<lambda>k. Inr None),
       cache_set = (\<lambda>k v ttl. Inl (Error (js ''cache write failed''))) \<rparr>"

definition emptyCache :: "'v cache" where
  "emptyCache = \<lparr> cache_get = (\<lambda>k. Inr None), cache_set = (\<lambda>k v ttl. Inr ()) \<rparr>"

section \<open>Location resolver\<close>

text \<open>
  The three method values of the specification, and which of them a method text of the
  code names: \<open>NER+Patterns\<close> is \<open>NER_AND_PATTERNS\<close>, \<open>Failed\<close> is \<open>FAILED\<close>; no
  other text names one.
\<close>

datatype extraction_method = NER_AND_PATTERNS | PATTERNS_ONLY | FAILED

definition methodNamed :: "jsstring \<Rightarrow> extraction_method option" where
  "methodNamed m =
     (if m = js ''NER+Patterns'' then Some NER_AND_PATTERNS
      else if m = js ''Failed'' then Some FAILED
      else None)"

text \<open>
  The candidates of the pattern fallback in the order of their discovery: the cleaned
  matches of the first expression, then those of the second, and so on.
\<close>

definition discovered :: "jsstring \<Rightarrow> jsstring list" where
  "discovered description =
     concat (map (\<lambda>pattern. map cleanMatch (matchGlobal (fst pattern) (snd pattern) description))
       locationPatterns)"

text \<open>
  A service with no credential, an empty cache that accepts every write, and no
  network; and the same service with a cache that fails.
\<close>

definition offlineService :: gemini where
  "offlineService =
     \<lparr> GEMINI_API_KEY = None,
       HUGGINGFACE_API_KEY = None,
       locationCache = emptyCache,
       imageCache = emptyCache,
       nerService = (\<lambda>description. Inl (Error (js ''network''))),
       imageDownload = (\<lambda>url. Inl (Error (js ''network''))),
       classifyService = (\<lambda>image. Inl (Error (js ''network''))),
       headService = (\<lambda>url. Inl (Error (js ''network''))),
       base64 = (\<lambda>s. s),
       numberText = (\<lambda>x. js ''0''),
       percentText = (\<lambda>v. js ''0.0''),
       nowISO = js ''2025-01-01T00:00:00.000Z'',
       urlRestParses = (\<lambda>url. True) \<rparr>"

definition brokenCacheService :: gemini where
  "brokenCacheService =
     offlineService \<lparr> locationCache := readFailingCache, imageCache := readFailingCache \<rparr>"

section \<open>Image authenticator\<close>

text \<open>
  A service with a credential: with no network; with an image download that works and
  a classification service that answers an object and not a list of labels; with one
  that answers a list whose first element is \<open>null\<close>; with one that answers a label
  with a score that no number can be made of; and with one that answers a text.
\<close>

definition credentialedService :: gemini where
  "credentialedService = offlineService \<lparr> GEMINI_API_KEY := Some (js ''key'') \<rparr>"

definition unrankedService :: gemini where
  "unrankedService =
     credentialedService
       \<lparr> imageDownload := (\<lambda>url. Inr [255, 216, 255]),
         classifyService := (\<lambda>image. Inr (JObj [(js ''estimated_time'', JNum 20)])) \<rparr>"

definition malformedService :: gemini where
  "malformedService =
     credentialedService
       \<lparr> imageDownload := (\<lambda>url. Inr [255, 216, 255]),
         classifyService := (\<lambda>image. Inr (JArr [JNull])) \<rparr>"

definition unreadableScoreService :: gemini where
  "unreadableScoreService =
     credentialedService
       \<lparr> imageDownload := (\<lambda>url. Inr [255, 216, 255]),
         classifyService := (\<lambda>image. Inr (JArr [JObj [(js ''label'', JStr (js ''flood'')),
           (js ''score'', JObj [(js ''toString'', JNull)])]])) \<rparr>"

definition garbledService :: gemini where
  "garbledService =
     credentialedService
       \<lparr> imageDownload := (\<lambda>url. Inr [255, 216, 255]),
         classifyService := (\<lambda>image. Inr (JStr (js ''Service Unavailable''))) \<rparr>"

chapter \<open>Properties\<close>

section \<open>Computations\<close>

lemma fst_ret: "fst (ret x) = Inr x"
  by (simp add: ret_def)

lemma snd_ret: "snd (ret x) = []"
  by (simp add: ret_def)

lemma fst_call: "fst (call ev outcome) = outcome"
  by (simp add: call_def)

lemma snd_call: "snd (call ev outcome) = [ev]"
  by (simp add: call_def)

lemma fst_bind_Inl: "fst m = Inl e \<Longrightarrow> fst (bind m f) = Inl e"
  by (simp add: bind_def)

lemma snd_bind_Inl: "fst m = Inl e \<Longrightarrow> snd (bind m f) = snd m"
  by (simp add: bind_def)

lemma fst_bind_Inr: "fst m = Inr x \<Longrightarrow> fst (bind m f) = fst (f x)"
  by (simp add: bind_def)

lemma snd_bind_Inr: "fst m = Inr x \<Longrightarrow> snd (bind m f) = snd m @ snd (f x)"
  by (simp add: bind_def)

lemma fst_try_catch_Inl: "fst m = Inl e \<Longrightarrow> fst (try_catch m h) = fst (h e)"
  by (simp add: try_catch_def)

lemma snd_try_catch_Inl: "fst m = Inl e \<Longrightarrow> snd (try_catch m h) = snd m @ snd (h e)"
  by (simp add: try_catch_def)

lemma try_catch_Inr: "fst m = Inr x \<Longrightarrow> try_catch m h = m"
  by (simp add: try_catch_def)

lemmas io_simps = fst_ret snd_ret fst_call snd_call cacheGet_def cacheSet_def

section \<open>Feed triage\<close>

subsection \<open>fetchSocialMediaReports\<close>

lemma fetch_body_outcome:
  "fst (fetch_body c now d tags k) =
     (case cache_get c k of
        Inl e \<Rightarrow> Inl e
      | Inr (Some v) \<Rightarrow> Inr v
      | Inr None \<Rightarrow>
          (case cache_set c k (generateEnhancedMockReports now tags d) (Some 0.5) of
             Inl e \<Rightarrow> Inl e
           | Inr u \<Rightarrow> Inr (generateEnhancedMockReports now tags d)))"
  by (simp add: fetch_body_def bind_def io_simps Let_def split: sum.splits option.splits)

lemma fetchSocialMediaReports_outcome:
  "fst (fetchSocialMediaReports c now d tags) =
     (case fst (fetch_body c now d tags (socialMediaKey d tags)) of
        Inl e \<Rightarrow> Inr []
      | Inr v \<Rightarrow> Inr v)"
  by (simp add: fetchSocialMediaReports_def try_catch_def io_simps split: sum.splits)

text \<open>
  C9. Whatever fails inside \<open>fetchSocialMediaReports\<close>, it returns the empty sequence
  and does not raise: this holds when the body of its \<open>try\<close> block throws, and in
  particular when the cache read throws and when, after a miss, the cache write throws.
  In every case the operation returns a sequence of reports.
\<close>

theorem fetchSocialMediaReports_empty_on_error:
  "(fst (fetch_body c now d tags (socialMediaKey d tags)) = Inl e
      \<longrightarrow> fst (fetchSocialMediaReports c now d tags) = Inr [])
   \<and> (cache_get c (socialMediaKey d tags) = Inl e
      \<longrightarrow> fst (fetchSocialMediaReports c now d tags) = Inr [])
   \<and> (cache_get c (socialMediaKey d tags) = Inr None
      \<and> cache_set c (socialMediaKey d tags) (generateEnhancedMockReports now tags d) (Some 0.5) = Inl e
      \<longrightarrow> fst (fetchSocialMediaReports c now d tags) = Inr [])
   \<and> (\<exists>reports. fst (fetchSocialMediaReports c now d tags) = Inr reports)"
  by (simp add: fetchSocialMediaReports_outcome fetch_body_outcome split: sum.splits option.splits)

theorem fetchSocialMediaReports_empty_on_error_witness:
  "fst (fetchSocialMediaReports readFailingCache 0 (js ''d1'') []) = Inr []
   \<and> fst (fetchSocialMediaReports writeFailingCache 0 (js ''d1'') [js ''flood'']) = Inr []"
  using fetchSocialMediaReports_empty_on_error
      [of readFailingCache 0 "js ''d1''" "[]" "Error (js ''cache read failed'')"]
    fetchSocialMediaReports_empty_on_error
      [of writeFailingCache 0 "js ''d1''" "[js ''flood'']" "Error (js ''cache write failed'')"]
  by (simp add: readFailingCache_def writeFailingCache_def)

subsection \<open>detectPriorityAlerts\<close>

lemma str_includes_sublist: "str_includes s k = sublist k s"
  by (induction s) (auto simp: sublist_Cons_right)

lemma sublist_map_iff: "sublist k (map f s) = (\<exists>w. sublist w s \<and> map f w = k)"
proof
  assume "sublist k (map f s)"
  then obtain ps ss where "map f s = ps @ k @ ss" by (auto simp: sublist_def)
  then obtain a b c where "s = a @ b @ c" "map f b = k"
    by (metis map_eq_append_conv)
  then show "\<exists>w. sublist w s \<and> map f w = k" by (auto simp: sublist_def)
next
  assume "\<exists>w. sublist w s \<and> map f w = k"
  then obtain w ps ss where "s = ps @ w @ ss" "map f w = k" by (auto simp: sublist_def)
  then have "map f s = map f ps @ k @ map f ss" by simp
  then show "sublist k (map f s)" unfolding sublist_def by blast
qed

lemma wordsFound_filter:
  "wordsFound vocabulary text
     = set (filter (\<lambda>k. str_includes (toLowerCase text) k) vocabulary)"
  by (auto simp: wordsFound_def str_includes_sublist toLowerCase_def sublist_map_iff)

text \<open>
  What \<open>detectPriorityAlerts\<close> keeps: the reports whose content holds one of the eight
  urgent words, whatever the case of its letters, or whose priority is \<open>urgent\<close>; each
  as often as it is in the input.
\<close>

lemma isPriorityAlert_iff:
  "isPriorityAlert r = (wordsFound urgentKeywords (content r) \<noteq> {} \<or> priority r = js ''urgent'')"
  by (auto simp: isPriorityAlert_def wordsFound_filter list_ex_iff filter_empty_conv)

lemma countAndMakeRun_parts:
  "\<exists>n. snd (countAndMakeRun cmp work) = drop n work
     \<and> (fst (countAndMakeRun cmp work) = take n work
        \<or> fst (countAndMakeRun cmp work) = rev (take n work))"
proof (cases work)
  case Nil
  then show ?thesis by (simp add: countAndMakeRun_def)
next
  case (Cons elementHigh tail)
  show ?thesis
  proof (cases tail)
    case Nil
    with Cons have "snd (countAndMakeRun cmp work) = drop 1 work
     \<and> (fst (countAndMakeRun cmp work) = take 1 work
        \<or> fst (countAndMakeRun cmp work) = rev (take 1 work))"
      by (simp add: countAndMakeRun_def)
    then show ?thesis by (rule exI)
  next
    case tail: (Cons elementLow rest)
    define n where
      "n = 2 + runAfter cmp (sortCompare cmp elementLow elementHigh < 0) elementLow rest"
    have "snd (countAndMakeRun cmp work) = drop n work
     \<and> (fst (countAndMakeRun cmp work) = take n work
        \<or> fst (countAndMakeRun cmp work) = rev (take n work))"
      unfolding Cons tail countAndMakeRun_def n_def by (simp add: Let_def)
    then show ?thesis by (rule exI)
  qed
qed

lemma mset_countAndMakeRun:
  "mset (fst (countAndMakeRun cmp work)) + mset (snd (countAndMakeRun cmp work)) = mset work"
proof -
  obtain n where n: "snd (countAndMakeRun cmp work) = drop n work"
    "fst (countAndMakeRun cmp work) = take n work
        \<or> fst (countAndMakeRun cmp work) = rev (take n work)"
    using countAndMakeRun_parts[of cmp work] by blast
  have "mset (take n work) + mset (drop n work) = mset work"
    by (metis append_take_drop_id mset_append)
  with n show ?thesis by auto
qed

lemma mset_binaryInsert: "mset (binaryInsert cmp work pivot) = add_mset pivot (mset work)"
proof -
  have "mset (take n work) + mset (drop n work) = mset work" for n
    by (metis append_take_drop_id mset_append)
  then show ?thesis by (simp add: binaryInsert_def Let_def)
qed

lemma mset_foldl_binaryInsert: "mset (foldl (binaryInsert cmp) run rest) = mset run + mset rest"
  by (induction rest arbitrary: run) (simp_all add: mset_binaryInsert)

lemma mset_sortBy: "mset (sortBy cmp xs) = mset xs"
  using mset_countAndMakeRun[of cmp xs]
  by (simp add: sortBy_def mset_foldl_binaryInsert case_prod_beta)

lemma set_sortBy: "set (sortBy cmp xs) = set xs"
  using mset_sortBy[of cmp xs] by (metis set_mset_mset)

text \<open>A run, read with a transitive relation that holds between neighbours.\<close>

lemma run_sorted:
  assumes "\<And>a b c. R a b \<Longrightarrow> R b c \<Longrightarrow> R a c"
    and "\<And>x y. x \<in> set (previous # rest) \<Longrightarrow> y \<in> set (previous # rest) \<Longrightarrow>
           \<not> (if isDescending then sortCompare cmp y x \<ge> 0 else sortCompare cmp y x < 0) \<Longrightarrow> R x y"
  shows "sorted_wrt R (previous # take (runAfter cmp isDescending previous rest) rest)"
  using assms(2)
proof (induction rest arbitrary: previous)
  case Nil
  then show ?case by simp
next
  case (Cons current rest)
  show ?case
  proof (cases "if isDescending then sortCompare cmp current previous \<ge> 0
                else sortCompare cmp current previous < 0")
    case True
    then show ?thesis by (simp add: Let_def)
  next
    case False
    then have pc: "R previous current" using Cons.prems[of previous current] by simp
    have ih: "sorted_wrt R (current # take (runAfter cmp isDescending current rest) rest)"
      by (rule Cons.IH) (auto intro: Cons.prems)
    then have "\<forall>y\<in>set (take (runAfter cmp isDescending current rest) rest). R current y" by simp
    with pc have "\<forall>y\<in>set (take (runAfter cmp isDescending current rest) rest). R previous y"
      using assms(1) by blast
    with False pc ih show ?thesis by (simp add: Let_def)
  qed
qed

lemma binarySearch_place:
  assumes trans: "\<And>a b c. le a b \<Longrightarrow> le b c \<Longrightarrow> le a c"
    and before: "\<And>y. y \<in> set work \<Longrightarrow> sortCompare cmp pivot y < 0 \<Longrightarrow> le pivot y"
    and after: "\<And>y. y \<in> set work \<Longrightarrow> \<not> sortCompare cmp pivot y < 0 \<Longrightarrow> le y pivot"
    and sorted: "sorted_wrt le work"
    and bounds: "left \<le> right" "right \<le> length work"
    and low: "\<forall>i<left. le (work ! i) pivot"
    and high: "\<forall>i. right \<le> i \<and> i < length work \<longrightarrow> le pivot (work ! i)"
  shows "binarySearch cmp pivot work left right \<le> length work
     \<and> (\<forall>i<binarySearch cmp pivot work left right. le (work ! i) pivot)
     \<and> (\<forall>i. binarySearch cmp pivot work left right \<le> i \<and> i < length work
            \<longrightarrow> le pivot (work ! i))"
  using bounds low high
proof (induction "right - left" arbitrary: left right rule: less_induct)
  case less
  show ?case
  proof (cases "left < right")
    case False
    then have "binarySearch cmp pivot work left right = left"
      by (subst binarySearch.simps) simp
    moreover from False less.prems(1) have "left = right" by simp
    ultimately show ?thesis using less.prems by simp
  next
    case True
    define mid where "mid = left + (right - left) div 2"
    have mid: "left \<le> mid" "mid < right" using True by (simp_all add: mid_def)
    then have midw: "mid < length work" using less.prems(2) by simp
    then have inw: "work ! mid \<in> set work" by simp
    show ?thesis
    proof (cases "sortCompare cmp pivot (work ! mid) < 0")
      case lt: True
      have pm: "le pivot (work ! mid)" using before[OF inw lt] .
      have "\<forall>i. mid \<le> i \<and> i < length work \<longrightarrow> le pivot (work ! i)"
      proof (intro allI impI)
        fix i assume i: "mid \<le> i \<and> i < length work"
        show "le pivot (work ! i)"
        proof (cases "i = mid")
          case True
          with pm show ?thesis by simp
        next
          case False
          with i have "mid < i" by simp
          with sorted i have "le (work ! mid) (work ! i)" by (simp add: sorted_wrt_iff_nth_less)
          with pm show ?thesis by (rule trans)
        qed
      qed
      with less.hyps[of mid left] less.prems mid midw
      have "binarySearch cmp pivot work left mid \<le> length work
         \<and> (\<forall>i<binarySearch cmp pivot work left mid. le (work ! i) pivot)
         \<and> (\<forall>i. binarySearch cmp pivot work left mid \<le> i \<and> i < length work
            \<longrightarrow> le pivot (work ! i))"
        by simp
      moreover have "binarySearch cmp pivot work left right = binarySearch cmp pivot work left mid"
        using True lt by (simp add: binarySearch.simps[of cmp pivot work left right] mid_def Let_def)
      ultimately show ?thesis by simp
    next
      case ge: False
      have mp: "le (work ! mid) pivot" using after[OF inw ge] .
      have "\<forall>i<mid + 1. le (work ! i) pivot"
      proof (intro allI impI)
        fix i assume i: "i < mid + 1"
        show "le (work ! i) pivot"
        proof (cases "i = mid")
          case True
          with mp show ?thesis by simp
        next
          case False
          with i have "i < mid" by simp
          with sorted midw have "le (work ! i) (work ! mid)" by (simp add: sorted_wrt_iff_nth_less)
          from this mp show ?thesis by (rule trans)
        qed
      qed
      with less.hyps[of right "mid + 1"] less.prems mid midw
      have "binarySearch cmp pivot work (mid + 1) right \<le> length work
         \<and> (\<forall>i<binarySearch cmp pivot work (mid + 1) right. le (work ! i) pivot)
         \<and> (\<forall>i. binarySearch cmp pivot work (mid + 1) right \<le> i \<and> i < length work
            \<longrightarrow> le pivot (work ! i))"
        by simp
      moreover have "binarySearch cmp pivot work left right
          = binarySearch cmp pivot work (mid + 1) right"
        using True ge by (simp add: binarySearch.simps[of cmp pivot work left right] mid_def Let_def)
      ultimately show ?thesis by simp
    qed
  qed
qed

lemma sorted_binaryInsert:
  assumes trans: "\<And>a b c. le a b \<Longrightarrow> le b c \<Longrightarrow> le a c"
    and before: "\<And>y. y \<in> set work \<Longrightarrow> sortCompare cmp pivot y < 0 \<Longrightarrow> le pivot y"
    and after: "\<And>y. y \<in> set work \<Longrightarrow> \<not> sortCompare cmp pivot y < 0 \<Longrightarrow> le y pivot"
    and sorted: "sorted_wrt le work"
  shows "sorted_wrt le (binaryInsert cmp work pivot)"
proof -
  define k where "k = binarySearch cmp pivot work 0 (length work)"
  have "k \<le> length work
     \<and> (\<forall>i<k. le (work ! i) pivot)
     \<and> (\<forall>i. k \<le> i \<and> i < length work \<longrightarrow> le pivot (work ! i))"
    unfolding k_def
    by (rule binarySearch_place[of le work cmp pivot, OF trans before after sorted]) auto
  then have k: "k \<le> length work" and low: "\<forall>i<k. le (work ! i) pivot"
    and high: "\<forall>i. k \<le> i \<and> i < length work \<longrightarrow> le pivot (work ! i)"
    by simp_all
  have s: "sorted_wrt le (take k work)" "sorted_wrt le (drop k work)"
    using sorted by (simp_all add: sorted_wrt_take sorted_wrt_drop)
  have a: "\<forall>x\<in>set (take k work). le x pivot"
    using low k by (auto simp: in_set_conv_nth)
  have b: "\<forall>y\<in>set (drop k work). le pivot y"
    using high k by (auto simp: in_set_conv_nth)
  have c: "\<forall>x\<in>set (take k work). \<forall>y\<in>set (drop k work). le x y"
    using a b trans by blast
  from s a b c show ?thesis
    unfolding binaryInsert_def Let_def k_def[symmetric]
    by (simp add: sorted_wrt_append)
qed

lemma set_binaryInsert: "set (binaryInsert cmp work pivot) = insert pivot (set work)"
  using mset_binaryInsert[of cmp work pivot] by (metis set_mset_mset set_mset_add_mset_insert)

lemma sorted_foldl_binaryInsert:
  assumes trans: "\<And>a b c. le a b \<Longrightarrow> le b c \<Longrightarrow> le a c"
    and before: "\<And>x y. x \<in> S \<Longrightarrow> y \<in> S \<Longrightarrow> sortCompare cmp x y < 0 \<Longrightarrow> le x y"
    and after: "\<And>x y. x \<in> S \<Longrightarrow> y \<in> S \<Longrightarrow> \<not> sortCompare cmp x y < 0 \<Longrightarrow> le y x"
  shows "sorted_wrt le run \<Longrightarrow> set run \<subseteq> S \<Longrightarrow> set rest \<subseteq> S \<Longrightarrow>
     sorted_wrt le (foldl (binaryInsert cmp) run rest)"
proof (induction rest arbitrary: run)
  case Nil
  then show ?case by simp
next
  case (Cons pivot rest)
  have "sorted_wrt le (binaryInsert cmp run pivot)"
  proof (rule sorted_binaryInsert[of le run cmp pivot, OF trans])
    fix y assume "y \<in> set run" "sortCompare cmp pivot y < 0"
    with Cons.prems show "le pivot y" by (auto intro: before)
  next
    fix y assume "y \<in> set run" "\<not> sortCompare cmp pivot y < 0"
    with Cons.prems show "le y pivot" by (auto intro: after)
  next
    show "sorted_wrt le run" by (rule Cons.prems)
  qed
  moreover have "set (binaryInsert cmp run pivot) \<subseteq> S"
    using Cons.prems by (simp add: set_binaryInsert)
  ultimately have "sorted_wrt le (foldl (binaryInsert cmp) (binaryInsert cmp run pivot) rest)"
    using Cons.prems by (intro Cons.IH) simp_all
  then show ?case by simp
qed

lemma sorted_countAndMakeRun:
  assumes trans: "\<And>a b c. le a b \<Longrightarrow> le b c \<Longrightarrow> le a c"
    and before: "\<And>x y. x \<in> set work \<Longrightarrow> y \<in> set work \<Longrightarrow> sortCompare cmp x y < 0 \<Longrightarrow> le x y"
    and after: "\<And>x y. x \<in> set work \<Longrightarrow> y \<in> set work \<Longrightarrow> \<not> sortCompare cmp x y < 0 \<Longrightarrow> le y x"
  shows "sorted_wrt le (fst (countAndMakeRun cmp work))"
proof (cases work)
  case Nil
  then show ?thesis by (simp add: countAndMakeRun_def)
next
  case (Cons elementHigh tail)
  show ?thesis
  proof (cases tail)
    case Nil
    with Cons show ?thesis by (simp add: countAndMakeRun_def)
  next
    case tail: (Cons elementLow rest)
    define n where "n = runAfter cmp (sortCompare cmp elementLow elementHigh < 0) elementLow rest"
    show ?thesis
    proof (cases "sortCompare cmp elementLow elementHigh < 0")
      case True
      have "sorted_wrt (\<lambda>x y. le y x) (elementLow # take (runAfter cmp True elementLow rest) rest)"
      proof (rule run_sorted)
        fix a b c assume "le b a" "le c b" then show "le c a" using trans by blast
      next
        fix x y
        assume "x \<in> set (elementLow # rest)" "y \<in> set (elementLow # rest)"
          "\<not> (if True then sortCompare cmp y x \<ge> 0 else sortCompare cmp y x < 0)"
        then show "le y x" using before[of y x] Cons tail by auto
      qed
      moreover have "le elementLow elementHigh" using before[of elementLow elementHigh] True Cons tail by simp
      ultimately have "sorted_wrt (\<lambda>x y. le y x)
          (elementHigh # elementLow # take (runAfter cmp True elementLow rest) rest)"
        using trans by (auto)
      then have "sorted_wrt le
          (rev (elementHigh # elementLow # take (runAfter cmp True elementLow rest) rest))"
        unfolding sorted_wrt_rev .
      with True Cons tail show ?thesis by (simp add: countAndMakeRun_def Let_def)
    next
      case False
      have "sorted_wrt le (elementLow # take (runAfter cmp False elementLow rest) rest)"
      proof (rule run_sorted)
        fix a b c assume "le a b" "le b c" then show "le a c" by (rule trans)
      next
        fix x y
        assume "x \<in> set (elementLow # rest)" "y \<in> set (elementLow # rest)"
          "\<not> (if False then sortCompare cmp y x \<ge> 0 else sortCompare cmp y x < 0)"
        then show "le x y" using after[of y x] Cons tail by auto
      qed
      moreover have "le elementHigh elementLow" using after[of elementLow elementHigh] False Cons tail by simp
      ultimately have "sorted_wrt le
          (elementHigh # elementLow # take (runAfter cmp False elementLow rest) rest)"
        using trans by auto
      with False Cons tail show ?thesis by (simp add: countAndMakeRun_def Let_def)
    qed
  qed
qed

lemma set_countAndMakeRun:
  "set (fst (countAndMakeRun cmp work)) \<union> set (snd (countAndMakeRun cmp work)) = set work"
  using mset_countAndMakeRun[of cmp work] by (metis set_mset_mset set_mset_union)

lemma sorted_sortBy_consistent:
  assumes trans: "\<And>a b c. le a b \<Longrightarrow> le b c \<Longrightarrow> le a c"
    and before: "\<And>x y. x \<in> set xs \<Longrightarrow> y \<in> set xs \<Longrightarrow> sortCompare cmp x y < 0 \<Longrightarrow> le x y"
    and after: "\<And>x y. x \<in> set xs \<Longrightarrow> y \<in> set xs \<Longrightarrow> \<not> sortCompare cmp x y < 0 \<Longrightarrow> le y x"
  shows "sorted_wrt le (sortBy cmp xs)"
proof (cases "length xs < 2")
  case True
  then have "xs = [] \<or> (\<exists>x. xs = [x])" by (cases xs) (auto simp: less_Suc_eq_0_disj)
  then show ?thesis by (auto simp: sortBy_def)
next
  case False
  have "sorted_wrt le (foldl (binaryInsert cmp) (fst (countAndMakeRun cmp xs))
      (snd (countAndMakeRun cmp xs)))"
  proof (rule sorted_foldl_binaryInsert[of le "set xs" cmp, OF trans before after])
    show "sorted_wrt le (fst (countAndMakeRun cmp xs))"
      by (rule sorted_countAndMakeRun[of le xs cmp, OF trans before after])
    show "set (fst (countAndMakeRun cmp xs)) \<subseteq> set xs" using set_countAndMakeRun[of cmp xs] by blast
    show "set (snd (countAndMakeRun cmp xs)) \<subseteq> set xs" using set_countAndMakeRun[of cmp xs] by blast
  qed
  with False show ?thesis by (simp add: sortBy_def case_prod_beta)
qed

lemma detectPriorityAlerts_keeps:
  "mset (detectPriorityAlerts reports) = mset (filter isPriorityAlert reports)"
  by (simp add: detectPriorityAlerts_def mset_sortBy)

text \<open>
  The order of the result, for priorities that are not names inherited from
  \<open>Object.prototype\<close> and timestamps that can be read: there the comparator is the
  specification's order.
\<close>

lemma priorityOrZero_rank:
  "p \<notin> set objectPrototypeNames \<Longrightarrow> priorityOrZero p = Number (priorityRank p)"
  by (simp add: priorityOrZero_def priorityOrder_def priorityRank_def)

lemma compareAlerts_before:
  assumes "priority a \<notin> set objectPrototypeNames" "priority b \<notin> set objectPrototypeNames"
    and "timestamp a \<noteq> None" "timestamp b \<noteq> None"
    and "sortCompare compareAlerts a b < 0"
  shows "alertOrder a b"
  using assms
  by (auto simp: sortCompare_def compareAlerts_def priorityOrZero_rank alertOrder_def Let_def
      split: if_splits)

lemma compareAlerts_after:
  assumes "priority a \<notin> set objectPrototypeNames" "priority b \<notin> set objectPrototypeNames"
    and "timestamp a \<noteq> None" "timestamp b \<noteq> None"
    and "\<not> sortCompare compareAlerts a b < 0"
  shows "alertOrder b a"
  using assms
  by (auto simp: sortCompare_def compareAlerts_def priorityOrZero_rank alertOrder_def Let_def
      split: if_splits)

lemma alertOrder_trans: "alertOrder a b \<Longrightarrow> alertOrder b c \<Longrightarrow> alertOrder a c"
  by (auto simp: alertOrder_def split: option.splits)

lemma sorted_sortBy:
  assumes "\<forall>r\<in>set xs. priority r \<notin> set objectPrototypeNames \<and> timestamp r \<noteq> None"
  shows "sorted_wrt alertOrder (sortBy compareAlerts xs)"
proof (rule sorted_sortBy_consistent)
  fix a b c
  assume "alertOrder a b" "alertOrder b c"
  then show "alertOrder a c" by (rule alertOrder_trans)
next
  fix x y
  assume "x \<in> set xs" "y \<in> set xs" "sortCompare compareAlerts x y < 0"
  with assms show "alertOrder x y" by (simp add: compareAlerts_before)
next
  fix x y
  assume "x \<in> set xs" "y \<in> set xs" "\<not> sortCompare compareAlerts x y < 0"
  with assms show "alertOrder y x" by (simp add: compareAlerts_after)
qed

lemma detectPriorityAlerts_sorted:
  assumes "\<forall>r\<in>set reports. priority r \<notin> set objectPrototypeNames \<and> timestamp r \<noteq> None"
  shows "sorted_wrt alertOrder (detectPriorityAlerts reports)"
  using assms by (simp add: detectPriorityAlerts_def sorted_sortBy)

text \<open>
  C2. The specification ranks every priority other than urgent, high and medium as 0.
  The code reads the rank from an object literal, so at a priority that names a member
  inherited from \<open>Object.prototype\<close> it finds that member and not 0: a kept report
  with priority \<open>constructor\<close> stays in front of an \<open>urgent\<close> one with the same
  timestamp, and the result is not in the order the specification asks for.
\<close>

theorem detectPriorityAlerts_inherited_name:
  "detectPriorityAlerts
     [sampleReport (js ''help'') (js ''constructor'') 0, sampleReport (js ''road closed'') (js ''urgent'') 0]
   = [sampleReport (js ''help'') (js ''constructor'') 0, sampleReport (js ''road closed'') (js ''urgent'') 0]
   \<and> \<not> sorted_wrt alertOrder (detectPriorityAlerts
     [sampleReport (js ''help'') (js ''constructor'') 0, sampleReport (js ''road closed'') (js ''urgent'') 0])"
  by (simp add: detectPriorityAlerts_def isPriorityAlert_def urgentKeywords_def sampleReport_def
      js_def toLowerCase_def toLowerUnit_def sortBy_def countAndMakeRun_def sortCompare_def
      compareAlerts_def priorityOrZero_def priorityOrder_def objectPrototypeNames_def alertOrder_def
      priorityRank_def)

subsection \<open>analyzeSentiment\<close>

lemma distinct_positiveKeywords: "distinct positiveKeywords"
  by (simp add: positiveKeywords_def js_def)

lemma distinct_negativeKeywords: "distinct negativeKeywords"
  by (simp add: negativeKeywords_def js_def)

lemma card_wordsFound:
  "distinct vocabulary \<Longrightarrow>
   card (wordsFound vocabulary text)
     = length (filter (\<lambda>k. str_includes (toLowerCase text) k) vocabulary)"
proof -
  assume "distinct vocabulary"
  then have "distinct (filter (\<lambda>k. str_includes (toLowerCase text) k) vocabulary)"
    by simp
  then show ?thesis
    unfolding wordsFound_filter by (rule distinct_card)
qed

text \<open>
  C3, as amended. The score of a report is the number of positive words that occur in
  its content, whatever the case of its letters, minus the number of negative words that
  occur in it, each word counted once however often it occurs; the label is positive for
  a score above 0, negative for a score below 0 and neutral for 0, so that a content
  with no word of either list is neutral with score 0; and the result carries the fields
  of the report it was made from, one result for each report, in the same order.
\<close>

theorem analyzeSentiment_counts_words_found:
  "sentiment_score (analyzeOne r)
     = int (card (wordsFound positiveKeywords (content r)))
       - int (card (wordsFound negativeKeywords (content r)))
   \<and> sentiment (analyzeOne r)
     = (if sentiment_score (analyzeOne r) > 0 then js ''positive''
        else if sentiment_score (analyzeOne r) < 0 then js ''negative''
        else js ''neutral'')
   \<and> (wordsFound positiveKeywords (content r) = {} \<and> wordsFound negativeKeywords (content r) = {}
      \<longrightarrow> sentiment_score (analyzeOne r) = 0 \<and> sentiment (analyzeOne r) = js ''neutral'')
   \<and> report.truncate (analyzeOne r) = r
   \<and> map report.truncate (analyzeSentiment reports) = reports"
proof -
  have score: "sentiment_score (analyzeOne r)
     = int (card (wordsFound positiveKeywords (content r)))
       - int (card (wordsFound negativeKeywords (content r)))"
    by (simp add: analyzeOne_def Let_def report.extend_def
        card_wordsFound distinct_positiveKeywords distinct_negativeKeywords)
  have label: "sentiment (analyzeOne r)
     = (if sentiment_score (analyzeOne r) > 0 then js ''positive''
        else if sentiment_score (analyzeOne r) < 0 then js ''negative''
        else js ''neutral'')"
    by (simp add: analyzeOne_def Let_def report.extend_def)
  have fields: "report.truncate (analyzeOne x) = x" for x
    by (simp add: analyzeOne_def Let_def report.extend_def report.truncate_def)
  have all: "map report.truncate (analyzeSentiment reports) = reports"
    by (simp add: analyzeSentiment_def fields comp_def)
  from score label fields all show ?thesis by simp
qed

theorem analyzeSentiment_counts_words_found_witness:
  "wordsFound positiveKeywords (js ''Road closed'') = {}
   \<and> wordsFound negativeKeywords (js ''Road closed'') = {}
   \<and> sentiment_score (analyzeOne (sampleReport (js ''Road closed'') (js ''low'') 0)) = 0
   \<and> sentiment (analyzeOne (sampleReport (js ''Road closed'') (js ''low'') 0)) = js ''neutral''"
proof -
  have c: "content (sampleReport (js ''Road closed'') (js ''low'') 0) = js ''Road closed''"
    by (simp add: sampleReport_def)
  have p: "wordsFound positiveKeywords (js ''Road closed'') = {}"
    by (simp add: wordsFound_filter positiveKeywords_def js_def toLowerCase_def toLowerUnit_def)
  have n: "wordsFound negativeKeywords (js ''Road closed'') = {}"
    by (simp add: wordsFound_filter negativeKeywords_def js_def toLowerCase_def toLowerUnit_def)
  from p n c
    analyzeSentiment_counts_words_found [of "sampleReport (js ''Road closed'') (js ''low'') 0" "[]"]
  show ?thesis by simp
qed

text \<open>
  C3 as the specification words it counts occurrences. In \<open>help help\<close> the word \<open>help\<close>
  occurs twice and no negative word occurs, so the occurrences give 2; the code gives 1.
\<close>

theorem analyzeSentiment_occurrences_counterexample:
  "occurrenceScore (content (sampleReport (js ''help help'') (js ''low'') 0)) = 2
   \<and> sentiment_score (analyzeOne (sampleReport (js ''help help'') (js ''low'') 0)) = 1"
  by (simp add: occurrenceScore_def analyzeOne_def sampleReport_def positiveKeywords_def
      negativeKeywords_def js_def toLowerCase_def toLowerUnit_def report.extend_def)

section \<open>Location resolver\<close>

subsection \<open>The pattern fallback\<close>

lemma foldl_pushMatches:
  "foldl (pushMatches d) acc ps
     = acc @ concat (map (\<lambda>pattern. map cleanMatch (matchGlobal (fst pattern) (snd pattern) d)) ps)"
  by (induction ps arbitrary: acc) (auto simp: pushMatches_def Let_def)

lemma find_append:
  "List.find P (xs @ ys) = (case List.find P xs of Some a \<Rightarrow> Some a | None \<Rightarrow> List.find P ys)"
  by (induction xs) auto

lemma find_unique_from:
  "List.find P (foldl (\<lambda>seen x. if x \<in> set seen then seen else seen @ [x]) acc xs)
     = (case List.find P acc of Some a \<Rightarrow> Some a | None \<Rightarrow> List.find P xs)"
proof (induction xs arbitrary: acc)
  case Nil
  then show ?case by (simp split: option.splits)
next
  case (Cons x xs)
  show ?case
  proof (cases "x \<in> set acc")
    case True
    then have "List.find P acc = None \<Longrightarrow> \<not> P x"
      by (auto simp: find_None_iff)
    with True Cons.IH[of acc] show ?thesis
      by (auto split: option.splits)
  next
    case False
    with Cons.IH[of "acc @ [x]"] show ?thesis
      by (auto simp: find_append split: option.splits)
  qed
qed

lemma find_first_unique:
  "List.find P (foldl (\<lambda>seen x. if x \<in> set seen then seen else seen @ [x]) [] xs) = List.find P xs"
  by (simp add: find_unique_from)

lemma first_of_filter: "(if length (filter P xs) > 0 then Some (filter P xs ! 0) else None) = List.find P xs"
  by (induction xs) auto

lemma extractLocationWithPatterns_find:
  "extractLocationWithPatterns d = List.find keepsLocation (discovered d)"
proof -
  have "extractLocationWithPatterns d
      = List.find keepsLocation (uniqueInOrder (foldl (pushMatches d) [] locationPatterns))"
    by (simp only: extractLocationWithPatterns_def Let_def first_of_filter)
  also have "\<dots> = List.find keepsLocation (foldl (pushMatches d) [] locationPatterns)"
    by (simp only: uniqueInOrder_def find_first_unique)
  also have "\<dots> = List.find keepsLocation (discovered d)"
    by (simp add: foldl_pushMatches discovered_def)
  finally show ?thesis .
qed

lemma extractLocationWithPatterns_nonempty:
  "extractLocationWithPatterns d = Some l \<Longrightarrow> l \<noteq> []"
  by (auto simp: extractLocationWithPatterns_find find_Some_iff keepsLocation_def)










lemmas eval_defs = seqs_def lit_def plus_def upperLetter_def lowerLetter_def digit_def whiteSpace_def
  whiteSpaceRanges_def capitalized_def capitalizedPhrase_def
  rx_ends.simps(6) matchGlobal_def matchAt_def matched_def classMatches_def inRanges_def
  asciiUpper_def asciiLower_def atWordBoundary_def isWordChar_def js_def

lemmas pattern_defs = locationPatterns_def cityStatePattern_def streetAddressPattern_def
  areaPattern_def landmarkPattern_def generalPattern_def leadingPreposition_def stopWord_def
  stopWords_def
  pushMatches_def cleanMatch_def replaceFirst_def trim_def uniqueInOrder_def keepsLocation_def
  rx_test_def




subsection \<open>extractLocation\<close>

lemma try_catch_ret_returns: "\<exists>x. fst (try_catch m (\<lambda>e. ret (h e))) = Inr x"
  by (cases "fst m") (simp_all add: try_catch_def ret_def)

lemma extractLocationWithNER_no_token:
  "\<not> truthyText (hfToken g) \<Longrightarrow> extractLocationWithNER g d = (Inr None, [])"
  by (simp add: extractLocationWithNER_def try_catch_def ret_def)

lemma extractLocationWithNER_returns: "\<exists>x. fst (extractLocationWithNER g d) = Inr x"
  unfolding extractLocationWithNER_def by (rule try_catch_ret_returns)

lemma extractLocationWithNER_events: "set (snd (extractLocationWithNER g d)) \<subseteq> {NerPost d}"
  by (auto simp: extractLocationWithNER_def try_catch_def bind_def ret_def call_def pure_def
      split: sum.splits jsval.splits if_splits)

lemma extractLocationWithNER_answer:
  "fst (extractLocationWithNER g d) = Inr (Some l) \<Longrightarrow> l \<noteq> []"
  by (auto simp: extractLocationWithNER_def try_catch_def bind_def ret_def call_def pure_def
      split: sum.splits jsval.splits if_splits)

lemma locationOrFallback_answer: 
  assumes "x = None \<or> (\<exists>l. x = Some l \<and> l \<noteq> [])"
  shows "locationOrFallback x d = None \<or> (\<exists>l. locationOrFallback x d = Some l \<and> l \<noteq> [])"
proof (cases "extractLocationWithPatterns d")
  case None
  with assms show ?thesis by (auto simp: locationOrFallback_def)
next
  case (Some l)
  then have "l \<noteq> []" by (rule extractLocationWithPatterns_nonempty)
  with Some assms show ?thesis by (auto simp: locationOrFallback_def)
qed

lemma resultData_Some:
  "l \<noteq> [] \<Longrightarrow> resultData (Some l)
     = \<lparr> ex_location = l, ex_confidence = 0.8, ex_method = js ''NER+Patterns'', ex_error = None \<rparr>"
  by (simp add: resultData_def truthyText_def)

lemma resultData_None:
  "resultData None
     = \<lparr> ex_location = js ''Location extraction failed'', ex_confidence = 0.1,
         ex_method = js ''Failed'', ex_error = None \<rparr>"
  by (simp add: resultData_def truthyText_def)

text \<open>The outcome and the events of \<open>extractLocation\<close>, case by case.\<close>

lemma extractLocation_read_fails:
  assumes "cache_get (locationCache g) (locationKey g d) = Inl e"
  shows "extractLocation g d = (Inr (failureResult e), [CacheGet (locationKey g d)])"
  using assms
  by (simp add: extractLocation_def extract_body_def try_catch_def bind_def cacheGet_def
      call_def ret_def)

lemma extractLocation_hit:
  assumes "cache_get (locationCache g) (locationKey g d) = Inr (Some v)"
  shows "extractLocation g d = (Inr v, [CacheGet (locationKey g d)])"
  using assms
  by (simp add: extractLocation_def extract_body_def try_catch_def bind_def cacheGet_def
      call_def ret_def)

lemma extractLocation_miss:
  assumes "cache_get (locationCache g) (locationKey g d) = Inr None"
    and "fst (extractLocationWithNER g d) = Inr x"
  shows "extractLocation g d =
     (case cache_set (locationCache g) (locationKey g d) (resultData (locationOrFallback x d)) None of
        Inl e \<Rightarrow> Inr (failureResult e)
      | Inr u \<Rightarrow> Inr (resultData (locationOrFallback x d)),
      CacheGet (locationKey g d) # snd (extractLocationWithNER g d)
        @ [CacheSet (locationKey g d) None])"
  using assms
  by (simp add: extractLocation_def extract_body_def try_catch_def bind_def cacheGet_def
      cacheSet_def call_def ret_def Let_def split: sum.splits)

lemma extractLocation_events:
  "set (snd (extractLocation g d))
     \<subseteq> {CacheGet (locationKey g d), NerPost d, CacheSet (locationKey g d) None}"
proof (cases "cache_get (locationCache g) (locationKey g d)")
  case (Inl e)
  then show ?thesis by (simp add: extractLocation_read_fails)
next
  case (Inr c)
  show ?thesis
  proof (cases c)
    case None
    obtain x where x: "fst (extractLocationWithNER g d) = Inr x"
      using extractLocationWithNER_returns by blast
    from Inr None have "cache_get (locationCache g) (locationKey g d) = Inr None" by simp
    from extractLocation_miss[OF this x] extractLocationWithNER_events[of g d]
    show ?thesis by auto
  next
    case (Some v)
    with Inr show ?thesis by (simp add: extractLocation_hit)
  qed
qed

lemma patterns_central_park:
  "extractLocationWithPatterns (js ''Flood near Central Park emergency shelter'')
     = Some (js ''Central Park'')"
  by (simp add: extractLocationWithPatterns_def eval_defs pattern_defs)

lemma offline_no_token: "\<not> truthyText (hfToken offlineService)"
  by (simp add: offlineService_def hfToken_def truthyText_def)

lemma offline_location_cache:
  "cache_get (locationCache offlineService) k = Inr None"
  "cache_set (locationCache offlineService) k v t = Inr ()"
  by (simp_all add: offlineService_def emptyCache_def)

lemma offline_extractLocation:
  "extractLocation offlineService d =
     (Inr (resultData (extractLocationWithPatterns d)),
      [CacheGet (locationKey offlineService d), CacheSet (locationKey offlineService d) None])"
proof -
  have ner: "extractLocationWithNER offlineService d = (Inr None, [])"
    using offline_no_token by (rule extractLocationWithNER_no_token)
  then have "fst (extractLocationWithNER offlineService d) = Inr None" by simp
  from extractLocation_miss[OF offline_location_cache(1) this] ner
  show ?thesis
    by (simp add: offline_location_cache locationOrFallback_def truthyText_def)
qed

text \<open>
  C1, as amended. With no credential configured \<open>extractLocation\<close> never makes the NER
  request. When the cache has no entry and takes the write, the result is made from the
  answer of the pattern fallback alone: a found answer is returned with confidence 0.8
  and the method \<open>NER+Patterns\<close>, the only method the code has for an answer; no
  answer gives confidence 0.1 and the method \<open>Failed\<close>.
\<close>

theorem extractLocation_without_credential:
  assumes "\<not> truthyText (hfToken g)"
  shows "(\<forall>t. NerPost t \<notin> set (snd (extractLocation g d)))
    \<and> (cache_get (locationCache g) (locationKey g d) = Inr None
       \<and> cache_set (locationCache g) (locationKey g d) (resultData (extractLocationWithPatterns d)) None
           = Inr ()
       \<longrightarrow> fst (extractLocation g d) = Inr (resultData (extractLocationWithPatterns d)))
    \<and> (\<forall>l. extractLocationWithPatterns d = Some l
       \<longrightarrow> resultData (extractLocationWithPatterns d)
           = \<lparr> ex_location = l, ex_confidence = 0.8, ex_method = js ''NER+Patterns'',
               ex_error = None \<rparr>)
    \<and> (extractLocationWithPatterns d = None
       \<longrightarrow> resultData (extractLocationWithPatterns d)
           = \<lparr> ex_location = js ''Location extraction failed'', ex_confidence = 0.1,
               ex_method = js ''Failed'', ex_error = None \<rparr>)"
proof -
  have ner: "extractLocationWithNER g d = (Inr None, [])"
    using assms by (rule extractLocationWithNER_no_token)
  have events: "\<forall>t. NerPost t \<notin> set (snd (extractLocation g d))"
  proof (cases "cache_get (locationCache g) (locationKey g d)")
    case (Inl e)
    then show ?thesis by (simp add: extractLocation_read_fails)
  next
    case (Inr c)
    show ?thesis
    proof (cases c)
      case None
      with Inr have "cache_get (locationCache g) (locationKey g d) = Inr None" by simp
      from extractLocation_miss[OF this, of None] ner show ?thesis by simp
    next
      case (Some v)
      with Inr show ?thesis by (simp add: extractLocation_hit)
    qed
  qed
  have miss: "cache_get (locationCache g) (locationKey g d) = Inr None
       \<and> cache_set (locationCache g) (locationKey g d) (resultData (extractLocationWithPatterns d)) None
           = Inr ()
       \<longrightarrow> fst (extractLocation g d) = Inr (resultData (extractLocationWithPatterns d))"
  proof
    assume a: "cache_get (locationCache g) (locationKey g d) = Inr None
       \<and> cache_set (locationCache g) (locationKey g d) (resultData (extractLocationWithPatterns d)) None
           = Inr ()"
    from ner have "fst (extractLocationWithNER g d) = Inr None" by simp
    from extractLocation_miss[OF a[THEN conjunct1] this] a
    show "fst (extractLocation g d) = Inr (resultData (extractLocationWithPatterns d))"
      by (simp add: locationOrFallback_def truthyText_def)
  qed
  have found: "\<forall>l. extractLocationWithPatterns d = Some l
       \<longrightarrow> resultData (extractLocationWithPatterns d)
           = \<lparr> ex_location = l, ex_confidence = 0.8, ex_method = js ''NER+Patterns'',
               ex_error = None \<rparr>"
    using extractLocationWithPatterns_nonempty[of d] by (auto simp: resultData_Some)
  have no_answer: "extractLocationWithPatterns d = None
       \<longrightarrow> resultData (extractLocationWithPatterns d)
           = \<lparr> ex_location = js ''Location extraction failed'', ex_confidence = 0.1,
               ex_method = js ''Failed'', ex_error = None \<rparr>"
    by (auto simp: resultData_None)
  from conjI[OF events conjI[OF miss conjI[OF found no_answer]]] show ?thesis .
qed

theorem extractLocation_without_credential_witness:
  "\<not> truthyText (hfToken offlineService)
   \<and> NerPost (js ''Flood near Central Park emergency shelter'')
       \<notin> set (snd (extractLocation offlineService (js ''Flood near Central Park emergency shelter'')))
   \<and> fst (extractLocation offlineService (js ''Flood near Central Park emergency shelter''))
       = Inr \<lparr> ex_location = js ''Central Park'', ex_confidence = 0.8,
               ex_method = js ''NER+Patterns'', ex_error = None \<rparr>"
proof -
  let ?d = "js ''Flood near Central Park emergency shelter''"
  note t = extractLocation_without_credential[OF offline_no_token, of ?d]
  from t[THEN conjunct1] have a: "NerPost ?d \<notin> set (snd (extractLocation offlineService ?d))"
    by (rule spec)
  have "cache_get (locationCache offlineService) (locationKey offlineService ?d) = Inr None
       \<and> cache_set (locationCache offlineService) (locationKey offlineService ?d)
            (resultData (extractLocationWithPatterns ?d)) None = Inr ()"
    by (simp add: offline_location_cache)
  with t[THEN conjunct2, THEN conjunct1]
  have b: "fst (extractLocation offlineService ?d) = Inr (resultData (extractLocationWithPatterns ?d))"
    by (rule mp)
  from t[THEN conjunct2, THEN conjunct2, THEN conjunct1, THEN spec, of "js ''Central Park''"]
    patterns_central_park
  have c: "resultData (extractLocationWithPatterns ?d)
      = \<lparr> ex_location = js ''Central Park'', ex_confidence = 0.8,
          ex_method = js ''NER+Patterns'', ex_error = None \<rparr>"
    by (rule mp)
  from offline_no_token a b c show ?thesis by simp
qed

text \<open>
  C1 as the specification words it fails: with no credential, the specification's
  scenario text gets the method \<open>NER+Patterns\<close>, which names \<open>NER_AND_PATTERNS\<close> and not
  \<open>PATTERNS_ONLY\<close>.
\<close>

theorem extractLocation_patterns_only_counterexample:
  "\<not> truthyText (hfToken offlineService)
   \<and> ex_method (projr (fst (extractLocation offlineService
         (js ''Flood near Central Park emergency shelter'')))) = js ''NER+Patterns''
   \<and> methodNamed (js ''NER+Patterns'') = Some NER_AND_PATTERNS
   \<and> methodNamed (js ''NER+Patterns'') \<noteq> Some PATTERNS_ONLY"
proof -
  have "js ''Central Park'' \<noteq> []" by (simp add: js_def)
  then have "ex_method (projr (fst (extractLocation offlineService
         (js ''Flood near Central Park emergency shelter'')))) = js ''NER+Patterns''"
    by (simp add: offline_extractLocation patterns_central_park resultData_Some)
  moreover have "methodNamed (js ''NER+Patterns'') = Some NER_AND_PATTERNS"
    by (simp add: methodNamed_def)
  ultimately show ?thesis using offline_no_token by simp
qed

text \<open>
  C4, as amended. \<open>extractLocation\<close> always returns a result. A cache entry is returned
  as it is. Otherwise the result has one of three forms: a non-empty answer with
  confidence 0.8 and method \<open>NER+Patterns\<close>; no answer, with confidence 0.1 and method
  \<open>Failed\<close>; or, when the cache read or the cache write throws, confidence 0 with
  method \<open>Error\<close> and the message of the error.
\<close>

theorem extractLocation_confidence_and_method:
  "(\<exists>r. fst (extractLocation g d) = Inr r)
   \<and> (\<forall>v. cache_get (locationCache g) (locationKey g d) = Inr (Some v)
        \<longrightarrow> fst (extractLocation g d) = Inr v)
   \<and> (\<forall>e. cache_get (locationCache g) (locationKey g d) = Inl e
        \<longrightarrow> fst (extractLocation g d)
            = Inr \<lparr> ex_location = js ''Location extraction failed'', ex_confidence = 0,
                    ex_method = js ''Error'', ex_error = Some (message e) \<rparr>)
   \<and> (cache_get (locationCache g) (locationKey g d) = Inr None
        \<longrightarrow> (\<exists>answer. (answer = None \<or> (\<exists>l. answer = Some l \<and> l \<noteq> []))
              \<and> fst (extractLocation g d)
                  = (case cache_set (locationCache g) (locationKey g d) (resultData answer) None of
                       Inl e \<Rightarrow> Inr \<lparr> ex_location = js ''Location extraction failed'',
                                       ex_confidence = 0, ex_method = js ''Error'',
                                       ex_error = Some (message e) \<rparr>
                     | Inr u \<Rightarrow> Inr (resultData answer))))
   \<and> (\<forall>l. l \<noteq> []
        \<longrightarrow> resultData (Some l)
            = \<lparr> ex_location = l, ex_confidence = 0.8, ex_method = js ''NER+Patterns'',
                ex_error = None \<rparr>)
   \<and> resultData None
        = \<lparr> ex_location = js ''Location extraction failed'', ex_confidence = 0.1,
            ex_method = js ''Failed'', ex_error = None \<rparr>"
proof -
  have returns: "\<exists>r. fst (extractLocation g d) = Inr r"
    unfolding extractLocation_def Let_def by (rule try_catch_ret_returns)
  have hit: "\<forall>v. cache_get (locationCache g) (locationKey g d) = Inr (Some v)
        \<longrightarrow> fst (extractLocation g d) = Inr v"
    by (simp add: extractLocation_hit)
  have fails: "\<forall>e. cache_get (locationCache g) (locationKey g d) = Inl e
        \<longrightarrow> fst (extractLocation g d)
            = Inr \<lparr> ex_location = js ''Location extraction failed'', ex_confidence = 0,
                    ex_method = js ''Error'', ex_error = Some (message e) \<rparr>"
    by (simp add: extractLocation_read_fails failureResult_def)
  have miss: "cache_get (locationCache g) (locationKey g d) = Inr None
        \<longrightarrow> (\<exists>answer. (answer = None \<or> (\<exists>l. answer = Some l \<and> l \<noteq> []))
              \<and> fst (extractLocation g d)
                  = (case cache_set (locationCache g) (locationKey g d) (resultData answer) None of
                       Inl e \<Rightarrow> Inr \<lparr> ex_location = js ''Location extraction failed'',
                                       ex_confidence = 0, ex_method = js ''Error'',
                                       ex_error = Some (message e) \<rparr>
                     | Inr u \<Rightarrow> Inr (resultData answer)))"
  proof
    assume m: "cache_get (locationCache g) (locationKey g d) = Inr None"
    obtain x where x: "fst (extractLocationWithNER g d) = Inr x"
      using extractLocationWithNER_returns by blast
    have "x = None \<or> (\<exists>l. x = Some l \<and> l \<noteq> [])"
      using x extractLocationWithNER_answer[of g d] by (cases x) auto
    then have a: "locationOrFallback x d = None \<or> (\<exists>l. locationOrFallback x d = Some l \<and> l \<noteq> [])"
      by (rule locationOrFallback_answer)
    have "fst (extractLocation g d)
        = (case cache_set (locationCache g) (locationKey g d) (resultData (locationOrFallback x d)) None of
             Inl e \<Rightarrow> Inr \<lparr> ex_location = js ''Location extraction failed'',
                             ex_confidence = 0, ex_method = js ''Error'',
                             ex_error = Some (message e) \<rparr>
           | Inr u \<Rightarrow> Inr (resultData (locationOrFallback x d)))"
      by (simp add: extractLocation_miss[OF m x] failureResult_def split: sum.splits)
    with a show "\<exists>answer. (answer = None \<or> (\<exists>l. answer = Some l \<and> l \<noteq> []))
              \<and> fst (extractLocation g d)
                  = (case cache_set (locationCache g) (locationKey g d) (resultData answer) None of
                       Inl e \<Rightarrow> Inr \<lparr> ex_location = js ''Location extraction failed'',
                                       ex_confidence = 0, ex_method = js ''Error'',
                                       ex_error = Some (message e) \<rparr>
                     | Inr u \<Rightarrow> Inr (resultData answer))"
      by blast
  qed
  have some: "\<forall>l. l \<noteq> []
        \<longrightarrow> resultData (Some l)
            = \<lparr> ex_location = l, ex_confidence = 0.8, ex_method = js ''NER+Patterns'',
                ex_error = None \<rparr>"
    by (simp add: resultData_Some)
  from conjI[OF returns conjI[OF hit conjI[OF fails conjI[OF miss conjI[OF some resultData_None]]]]]
  show ?thesis .
qed

lemma broken_location_cache:
  "cache_get (locationCache brokenCacheService) k = Inl (Error (js ''cache read failed''))"
  by (simp add: brokenCacheService_def readFailingCache_def)

theorem extractLocation_confidence_and_method_witness:
  "fst (extractLocation brokenCacheService (js ''Flood in Reno''))
     = Inr \<lparr> ex_location = js ''Location extraction failed'', ex_confidence = 0,
             ex_method = js ''Error'', ex_error = Some (js ''cache read failed'') \<rparr>
   \<and> resultData (Some (js ''Reno''))
     = \<lparr> ex_location = js ''Reno'', ex_confidence = 0.8, ex_method = js ''NER+Patterns'',
         ex_error = None \<rparr>"
proof -
  note t = extractLocation_confidence_and_method[of brokenCacheService "js ''Flood in Reno''"]
  from t[THEN conjunct2, THEN conjunct2, THEN conjunct1, THEN spec,
      of "Error (js ''cache read failed'')"] broken_location_cache
  have a: "fst (extractLocation brokenCacheService (js ''Flood in Reno''))
     = Inr \<lparr> ex_location = js ''Location extraction failed'', ex_confidence = 0,
             ex_method = js ''Error'',
             ex_error = Some (message (Error (js ''cache read failed''))) \<rparr>"
    by (rule mp)
  have n: "js ''Reno'' \<noteq> []" by (simp add: js_def)
  from t[THEN conjunct2, THEN conjunct2, THEN conjunct2, THEN conjunct2, THEN conjunct1,
      THEN spec, of "js ''Reno''"] n
  have b: "resultData (Some (js ''Reno''))
     = \<lparr> ex_location = js ''Reno'', ex_confidence = 0.8, ex_method = js ''NER+Patterns'',
         ex_error = None \<rparr>"
    by (rule mp)
  from a b show ?thesis by simp
qed

text \<open>
  C4 as the specification words it fails: after an error the method is \<open>Error\<close>, which is
  not the \<open>Failed\<close> of a search that found nothing and names none of the three values
  of the specification.
\<close>

theorem extractLocation_error_method_counterexample:
  "fst (extractLocation brokenCacheService (js ''Flood in Reno''))
     = Inr \<lparr> ex_location = js ''Location extraction failed'', ex_confidence = 0,
             ex_method = js ''Error'', ex_error = Some (js ''cache read failed'') \<rparr>
   \<and> js ''Error'' \<noteq> js ''Failed''
   \<and> methodNamed (js ''Error'') = None"
  by (simp add: extractLocation_read_fails[OF broken_location_cache] failureResult_def
      methodNamed_def js_def)

section \<open>Image authenticator\<close>

lemma analyze_outcome:
  "fst (analyzeImageWithHuggingFace g u) =
     (case imageDownload g u of
        Inl e \<Rightarrow> Inl (Error (js ''Hugging Face analysis failed: '' @ message e))
      | Inr imageData \<Rightarrow>
          (case classifyService g imageData of
             Inl e \<Rightarrow> Inl (Error (js ''Hugging Face analysis failed: '' @ message e))
           | Inr response \<Rightarrow>
               (case classification g imageData response of
                  Inl e \<Rightarrow> Inl (Error (js ''Hugging Face analysis failed: '' @ message e))
                | Inr r \<Rightarrow> Inr r)))"
  by (simp add: analyzeImageWithHuggingFace_def try_catch_def bind_def call_def pure_def throw_def
      split: sum.splits)

lemma analyze_events: "set (snd (analyzeImageWithHuggingFace g u)) \<subseteq> {ImageGet u, ClassifyPost}"
  by (auto simp: analyzeImageWithHuggingFace_def try_catch_def bind_def call_def pure_def throw_def
      split: sum.splits)

lemma basic_events: "set (snd (analyzeImageBasic g u)) \<subseteq> {HeadRequest u}"
  by (auto simp: analyzeImageBasic_def try_catch_def bind_def call_def ret_def throw_def Let_def
      split: sum.splits if_splits)

lemma getProp_again: "getProp v a = Inr x \<Longrightarrow> \<exists>y. getProp v b = Inr y"
  by (cases v) (simp_all add: getProp_def)

lemma classification_unranked:
  "\<forall>topResult others. response \<noteq> JArr (topResult # others) \<Longrightarrow>
   classification g imageData response
     = Inr (classified g imageData response (js ''analyzed'') (js ''Image analyzed successfully'')
         (JNum 0.7))"
  by (cases response) (auto simp: classification_def split: list.splits)

lemma classification_top:
  "classification g imageData (JArr (topResult # others)) = Inl e \<longleftrightarrow>
     e = typeError
     \<and> ((\<forall>l. getProp topResult (js ''label'') \<noteq> Inr (JStr l))
        \<or> (\<exists>score. getProp topResult (js ''score'') = Inr score \<and> \<not> convertible score))"
proof (cases "getProp topResult (js ''label'')")
  case (Inl e')
  then have "e' = typeError" by (cases topResult) (simp_all add: getProp_def)
  with Inl show ?thesis by (auto simp: classification_def bindE_def)
next
  case (Inr label)
  then obtain score where score: "getProp topResult (js ''score'') = Inr score"
    using getProp_again by blast
  from Inr score show ?thesis
    by (cases label)
       (auto simp: classification_def bindE_def textOf_def scorePercent_def Let_def)
qed

lemma classification_throws:
  "(\<exists>e. classification g imageData response = Inl e)
     \<longleftrightarrow> (\<exists>topResult others. response = JArr (topResult # others)
            \<and> ((\<forall>l. getProp topResult (js ''label'') \<noteq> Inr (JStr l))
               \<or> (\<exists>score. getProp topResult (js ''score'') = Inr score \<and> \<not> convertible score)))"
proof (cases "\<exists>topResult others. response = JArr (topResult # others)")
  case True
  then obtain topResult others where r: "response = JArr (topResult # others)" by blast
  then show ?thesis by (simp add: classification_top)
next
  case False
  then have "\<forall>topResult others. response \<noteq> JArr (topResult # others)" by simp
  from classification_unranked[OF this] False show ?thesis by simp
qed

lemma classification_status:
  assumes "classification g imageData response = Inr r"
  shows "status r = js ''analyzed'' \<or> status r = js ''authentic''"
proof (cases "\<exists>topResult others. response = JArr (topResult # others)")
  case True
  then obtain topResult others where r: "response = JArr (topResult # others)" by blast
  from assms show ?thesis
    unfolding r classification_def
    by (auto simp: bindE_def classified_def Let_def split: sum.splits jsval.splits if_splits)
next
  case False
  then have "\<forall>topResult others. response \<noteq> JArr (topResult # others)" by simp
  from classification_unranked[OF this] assms show ?thesis by (auto simp: classified_def)
qed

lemma analyze_status:
  assumes "fst (analyzeImageWithHuggingFace g u) = Inr r"
  shows "status r = js ''analyzed'' \<or> status r = js ''authentic''"
  using assms classification_status
  by (auto simp: analyze_outcome split: sum.splits)


lemma perform_advanced:
  assumes "isValidImageUrl g u" "truthyText (hfToken g)"
  shows "performImageVerification g u =
     (case fst (analyzeImageWithHuggingFace g u) of
        Inl e \<Rightarrow> Inr (analysisFailed e)
      | Inr r \<Rightarrow> Inr r,
      snd (analyzeImageWithHuggingFace g u))"
  using assms
  by (cases "analyzeImageWithHuggingFace g u")
     (simp add: performImageVerification_def try_catch_def ret_def split: sum.splits)

lemma perform_returns: "\<exists>r. fst (performImageVerification g u) = Inr r"
  unfolding performImageVerification_def by (rule try_catch_ret_returns)

lemma perform_events:
  "set (snd (performImageVerification g u)) \<subseteq> {ImageGet u, ClassifyPost, HeadRequest u}"
  using analyze_events[of g u] basic_events[of g u]
  by (auto simp: performImageVerification_def try_catch_def ret_def split: sum.splits)

lemma verifyImage_read_fails:
  assumes "cache_get (imageCache g) (imageKey g u) = Inl e"
  shows "verifyImage g u = (Inr (verificationFailed g e), [CacheGet (imageKey g u)])"
  using assms
  by (simp add: verifyImage_def verify_body_def try_catch_def bind_def cacheGet_def call_def ret_def)

lemma verifyImage_hit:
  assumes "cache_get (imageCache g) (imageKey g u) = Inr (Some v)"
  shows "verifyImage g u = (Inr v, [CacheGet (imageKey g u)])"
  using assms
  by (simp add: verifyImage_def verify_body_def try_catch_def bind_def cacheGet_def call_def ret_def)

lemma verifyImage_miss:
  assumes "cache_get (imageCache g) (imageKey g u) = Inr None"
    and "fst (performImageVerification g u) = Inr r"
  shows "verifyImage g u =
     (case cache_set (imageCache g) (imageKey g u) r None of
        Inl e \<Rightarrow> Inr (verificationFailed g e)
      | Inr x \<Rightarrow> Inr r,
      CacheGet (imageKey g u) # snd (performImageVerification g u) @ [CacheSet (imageKey g u) None])"
  using assms
  by (simp add: verifyImage_def verify_body_def try_catch_def bind_def cacheGet_def cacheSet_def
      call_def ret_def Let_def split: sum.splits)

lemma verifyImage_events:
  "set (snd (verifyImage g u))
     \<subseteq> {CacheGet (imageKey g u), CacheSet (imageKey g u) None, ImageGet u, ClassifyPost,
         HeadRequest u}"
proof (cases "cache_get (imageCache g) (imageKey g u)")
  case (Inl e)
  then show ?thesis by (simp add: verifyImage_read_fails)
next
  case (Inr c)
  show ?thesis
  proof (cases c)
    case None
    obtain r where r: "fst (performImageVerification g u) = Inr r"
      using perform_returns by blast
    from Inr None have "cache_get (imageCache g) (imageKey g u) = Inr None" by simp
    from verifyImage_miss[OF this r] perform_events[of g u]
    show ?thesis by auto
  next
    case (Some v)
    with Inr show ?thesis by (simp add: verifyImage_hit)
  qed
qed


lemmas url_defs = urlScheme_def urlInput_def isAsciiAlpha_def isSchemeChar_def inRanges_def
  asciiLower_def js_def




lemma sample_url_valid:
  "urlRestParses g (js ''https://example.com/flood.jpg'')
     \<Longrightarrow> isValidImageUrl g (js ''https://example.com/flood.jpg'')"
  by (simp add: isValidImageUrl_def newURL_def url_defs)


lemma offline_image_cache:
  "cache_get (imageCache offlineService) k = Inr None"
  "cache_set (imageCache offlineService) k v t = Inr ()"
  by (simp_all add: offlineService_def emptyCache_def)


text \<open>
  C5, as amended. With a credential and a valid URL the advanced analysis runs. It
  throws exactly when the image download fails, or the classification request fails, or
  the response is a non-empty array whose first element has no string as its label or
  has a score that cannot be converted to a number. Whenever it throws,
  \<open>performImageVerification\<close> returns status \<open>error\<close> with confidence 0 and makes
  no header request; and so does \<open>verifyImage\<close> when the cache has no entry for the
  URL, whether or not the cache takes the write. A response of any other shape is no
  failure: the analysis returns, and its status is \<open>analyzed\<close> or \<open>authentic\<close>.
\<close>

theorem advanced_failure_is_error:
  assumes "truthyText (hfToken g)" and "isValidImageUrl g url"
  shows "((\<exists>e. fst (analyzeImageWithHuggingFace g url) = Inl e) \<longleftrightarrow>
        (\<exists>e. imageDownload g url = Inl e)
        \<or> (\<exists>imageData. imageDownload g url = Inr imageData
             \<and> ((\<exists>e. classifyService g imageData = Inl e)
                \<or> (\<exists>topResult others. classifyService g imageData = Inr (JArr (topResult # others))
                     \<and> ((\<forall>l. getProp topResult (js ''label'') \<noteq> Inr (JStr l))
                        \<or> (\<exists>score. getProp topResult (js ''score'') = Inr score
                              \<and> \<not> convertible score))))))
    \<and> (\<forall>e. fst (analyzeImageWithHuggingFace g url) = Inl e \<longrightarrow>
          fst (performImageVerification g url) = Inr (analysisFailed e)
          \<and> (\<forall>u. HeadRequest u \<notin> set (snd (performImageVerification g url)))
          \<and> (cache_get (imageCache g) (imageKey g url) = Inr None \<longrightarrow>
               (\<exists>r. fst (verifyImage g url) = Inr r \<and> status r = js ''error''
                     \<and> confidence r = JNum 0)
               \<and> (\<forall>u. HeadRequest u \<notin> set (snd (verifyImage g url)))))
    \<and> (\<forall>r. fst (analyzeImageWithHuggingFace g url) = Inr r \<longrightarrow>
          fst (performImageVerification g url) = Inr r
          \<and> (status r = js ''analyzed'' \<or> status r = js ''authentic''))
    \<and> (\<forall>e. status (analysisFailed e) = js ''error'' \<and> confidence (analysisFailed e) = JNum 0)"
proof -
  have fails: "(\<exists>e. fst (analyzeImageWithHuggingFace g url) = Inl e) \<longleftrightarrow>
        (\<exists>e. imageDownload g url = Inl e)
        \<or> (\<exists>imageData. imageDownload g url = Inr imageData
             \<and> ((\<exists>e. classifyService g imageData = Inl e)
                \<or> (\<exists>topResult others. classifyService g imageData = Inr (JArr (topResult # others))
                     \<and> ((\<forall>l. getProp topResult (js ''label'') \<noteq> Inr (JStr l))
                        \<or> (\<exists>score. getProp topResult (js ''score'') = Inr score
                              \<and> \<not> convertible score)))))"
  proof (cases "imageDownload g url")
    case (Inl e)
    then show ?thesis by (simp add: analyze_outcome)
  next
    case download: (Inr imageData)
    show ?thesis
    proof (cases "classifyService g imageData")
      case (Inl e)
      with download show ?thesis by (simp add: analyze_outcome)
    next
      case (Inr response)
      have "(\<exists>e. fst (analyzeImageWithHuggingFace g url) = Inl e)
          \<longleftrightarrow> (\<exists>e. classification g imageData response = Inl e)"
        using download Inr by (auto simp: analyze_outcome split: sum.splits)
      with download Inr show ?thesis by (simp add: classification_throws)
    qed
  qed
  have shape: "\<forall>e. status (analysisFailed e) = js ''error'' \<and> confidence (analysisFailed e) = JNum 0"
    by (simp add: analysisFailed_def)
  have terminal: "\<forall>e. fst (analyzeImageWithHuggingFace g url) = Inl e \<longrightarrow>
          fst (performImageVerification g url) = Inr (analysisFailed e)
          \<and> (\<forall>u. HeadRequest u \<notin> set (snd (performImageVerification g url)))
          \<and> (cache_get (imageCache g) (imageKey g url) = Inr None \<longrightarrow>
               (\<exists>r. fst (verifyImage g url) = Inr r \<and> status r = js ''error''
                     \<and> confidence r = JNum 0)
               \<and> (\<forall>u. HeadRequest u \<notin> set (snd (verifyImage g url))))"
  proof (intro allI impI)
    fix e
    assume e: "fst (analyzeImageWithHuggingFace g url) = Inl e"
    have p: "performImageVerification g url
        = (Inr (analysisFailed e), snd (analyzeImageWithHuggingFace g url))"
      using perform_advanced[OF assms(2) assms(1)] e by simp
    have noHead: "\<forall>u. HeadRequest u \<notin> set (snd (performImageVerification g url))"
      using p analyze_events[of g url] by auto
    have cached: "cache_get (imageCache g) (imageKey g url) = Inr None \<longrightarrow>
               (\<exists>r. fst (verifyImage g url) = Inr r \<and> status r = js ''error''
                     \<and> confidence r = JNum 0)
               \<and> (\<forall>u. HeadRequest u \<notin> set (snd (verifyImage g url)))"
    proof
      assume m: "cache_get (imageCache g) (imageKey g url) = Inr None"
      from p have "fst (performImageVerification g url) = Inr (analysisFailed e)" by simp
      note v = verifyImage_miss[OF m this]
      have "\<exists>r. fst (verifyImage g url) = Inr r \<and> status r = js ''error'' \<and> confidence r = JNum 0"
        by (cases "cache_set (imageCache g) (imageKey g url) (analysisFailed e) None")
           (simp_all add: v analysisFailed_def verificationFailed_def)
      moreover have "\<forall>u. HeadRequest u \<notin> set (snd (verifyImage g url))"
        using v noHead by simp
      ultimately show "(\<exists>r. fst (verifyImage g url) = Inr r \<and> status r = js ''error''
                     \<and> confidence r = JNum 0)
               \<and> (\<forall>u. HeadRequest u \<notin> set (snd (verifyImage g url)))"
        by (rule conjI)
    qed
    from p have "fst (performImageVerification g url) = Inr (analysisFailed e)" by simp
    from conjI[OF this conjI[OF noHead cached]]
    show "fst (performImageVerification g url) = Inr (analysisFailed e)
          \<and> (\<forall>u. HeadRequest u \<notin> set (snd (performImageVerification g url)))
          \<and> (cache_get (imageCache g) (imageKey g url) = Inr None \<longrightarrow>
               (\<exists>r. fst (verifyImage g url) = Inr r \<and> status r = js ''error''
                     \<and> confidence r = JNum 0)
               \<and> (\<forall>u. HeadRequest u \<notin> set (snd (verifyImage g url))))" .
  qed
  have returns: "\<forall>r. fst (analyzeImageWithHuggingFace g url) = Inr r \<longrightarrow>
          fst (performImageVerification g url) = Inr r
          \<and> (status r = js ''analyzed'' \<or> status r = js ''authentic'')"
  proof (intro allI impI)
    fix r
    assume r: "fst (analyzeImageWithHuggingFace g url) = Inr r"
    have "fst (performImageVerification g url) = Inr r"
      using perform_advanced[OF assms(2) assms(1)] r by simp
    from this analyze_status[OF r]
    show "fst (performImageVerification g url) = Inr r
          \<and> (status r = js ''analyzed'' \<or> status r = js ''authentic'')"
      by (rule conjI)
  qed
  from conjI[OF fails conjI[OF terminal conjI[OF returns shape]]] show ?thesis .
qed

lemma credentialed_token: "truthyText (hfToken credentialedService)"
  by (simp add: credentialedService_def offlineService_def hfToken_def truthyText_def js_def)

lemma malformed_token: "truthyText (hfToken malformedService)"
  by (simp add: malformedService_def credentialedService_def offlineService_def hfToken_def
      truthyText_def js_def)

lemma unranked_token: "truthyText (hfToken unrankedService)"
  by (simp add: unrankedService_def credentialedService_def offlineService_def hfToken_def
      truthyText_def js_def)

lemma unreadableScore_token: "truthyText (hfToken unreadableScoreService)"
  by (simp add: unreadableScoreService_def credentialedService_def offlineService_def hfToken_def
      truthyText_def js_def)

lemma garbled_token: "truthyText (hfToken garbledService)"
  by (simp add: garbledService_def credentialedService_def offlineService_def hfToken_def
      truthyText_def js_def)

lemma credentialed_url: "isValidImageUrl credentialedService (js ''https://example.com/flood.jpg'')"
  by (rule sample_url_valid) (simp add: credentialedService_def offlineService_def)

lemma malformed_url: "isValidImageUrl malformedService (js ''https://example.com/flood.jpg'')"
  by (rule sample_url_valid)
     (simp add: malformedService_def credentialedService_def offlineService_def)

lemma unranked_url: "isValidImageUrl unrankedService (js ''https://example.com/flood.jpg'')"
  by (rule sample_url_valid)
     (simp add: unrankedService_def credentialedService_def offlineService_def)

lemma unreadableScore_url:
  "isValidImageUrl unreadableScoreService (js ''https://example.com/flood.jpg'')"
  by (rule sample_url_valid)
     (simp add: unreadableScoreService_def credentialedService_def offlineService_def)

lemma garbled_url: "isValidImageUrl garbledService (js ''https://example.com/flood.jpg'')"
  by (rule sample_url_valid)
     (simp add: garbledService_def credentialedService_def offlineService_def)

lemma score_is_not_label: "js ''score'' \<noteq> js ''label''"
  by (simp add: js_def)

theorem advanced_failure_is_error_witness:
  "truthyText (hfToken credentialedService)
   \<and> isValidImageUrl credentialedService (js ''https://example.com/flood.jpg'')
   \<and> fst (performImageVerification credentialedService (js ''https://example.com/flood.jpg''))
       = Inr (analysisFailed (Error (js ''Hugging Face analysis failed: network'')))
   \<and> HeadRequest (js ''https://example.com/flood.jpg'')
       \<notin> set (snd (performImageVerification credentialedService (js ''https://example.com/flood.jpg'')))
   \<and> (\<exists>e. fst (analyzeImageWithHuggingFace malformedService (js ''https://example.com/flood.jpg''))
          = Inl e)
   \<and> (\<exists>e. fst (analyzeImageWithHuggingFace unreadableScoreService
               (js ''https://example.com/flood.jpg'')) = Inl e)"
proof -
  let ?u = "js ''https://example.com/flood.jpg''"
  let ?e = "Error (js ''Hugging Face analysis failed: network'')"
  note t = advanced_failure_is_error[OF credentialed_token credentialed_url]
  have f: "fst (analyzeImageWithHuggingFace credentialedService ?u) = Inl ?e"
    by (simp add: analyze_outcome credentialedService_def offlineService_def js_def)
  from t[THEN conjunct2, THEN conjunct1, THEN spec, of ?e] f
  have r: "fst (performImageVerification credentialedService ?u) = Inr (analysisFailed ?e)
          \<and> (\<forall>u. HeadRequest u \<notin> set (snd (performImageVerification credentialedService ?u)))
          \<and> (cache_get (imageCache credentialedService) (imageKey credentialedService ?u) = Inr None \<longrightarrow>
               (\<exists>r. fst (verifyImage credentialedService ?u) = Inr r \<and> status r = js ''error''
                     \<and> confidence r = JNum 0)
               \<and> (\<forall>u. HeadRequest u \<notin> set (snd (verifyImage credentialedService ?u))))"
    by (rule mp)
  from r[THEN conjunct2, THEN conjunct1]
  have h: "HeadRequest ?u \<notin> set (snd (performImageVerification credentialedService ?u))"
    by (rule spec)
  have "\<exists>imageData. imageDownload malformedService ?u = Inr imageData
             \<and> ((\<exists>e. classifyService malformedService imageData = Inl e)
                \<or> (\<exists>topResult others.
                      classifyService malformedService imageData = Inr (JArr (topResult # others))
                     \<and> ((\<forall>l. getProp topResult (js ''label'') \<noteq> Inr (JStr l))
                        \<or> (\<exists>score. getProp topResult (js ''score'') = Inr score
                              \<and> \<not> convertible score))))"
    by (simp add: malformedService_def getProp_def)
  then have "(\<exists>e. imageDownload malformedService ?u = Inl e)
        \<or> (\<exists>imageData. imageDownload malformedService ?u = Inr imageData
             \<and> ((\<exists>e. classifyService malformedService imageData = Inl e)
                \<or> (\<exists>topResult others.
                      classifyService malformedService imageData = Inr (JArr (topResult # others))
                     \<and> ((\<forall>l. getProp topResult (js ''label'') \<noteq> Inr (JStr l))
                        \<or> (\<exists>score. getProp topResult (js ''score'') = Inr score
                              \<and> \<not> convertible score)))))"
    by (rule disjI2)
  with advanced_failure_is_error[OF malformed_token malformed_url, THEN conjunct1]
  have m: "\<exists>e. fst (analyzeImageWithHuggingFace malformedService ?u) = Inl e"
    by (rule iffD2)
  have "\<exists>imageData. imageDownload unreadableScoreService ?u = Inr imageData
             \<and> ((\<exists>e. classifyService unreadableScoreService imageData = Inl e)
                \<or> (\<exists>topResult others.
                      classifyService unreadableScoreService imageData
                        = Inr (JArr (topResult # others))
                     \<and> ((\<forall>l. getProp topResult (js ''label'') \<noteq> Inr (JStr l))
                        \<or> (\<exists>score. getProp topResult (js ''score'') = Inr score
                              \<and> \<not> convertible score))))"
    by (simp add: unreadableScoreService_def getProp_def score_is_not_label)
  then have "(\<exists>e. imageDownload unreadableScoreService ?u = Inl e)
        \<or> (\<exists>imageData. imageDownload unreadableScoreService ?u = Inr imageData
             \<and> ((\<exists>e. classifyService unreadableScoreService imageData = Inl e)
                \<or> (\<exists>topResult others.
                      classifyService unreadableScoreService imageData
                        = Inr (JArr (topResult # others))
                     \<and> ((\<forall>l. getProp topResult (js ''label'') \<noteq> Inr (JStr l))
                        \<or> (\<exists>score. getProp topResult (js ''score'') = Inr score
                              \<and> \<not> convertible score)))))"
    by (rule disjI2)
  with advanced_failure_is_error[OF unreadableScore_token unreadableScore_url, THEN conjunct1]
  have s: "\<exists>e. fst (analyzeImageWithHuggingFace unreadableScoreService ?u) = Inl e"
    by (rule iffD2)
  from conjI[OF credentialed_token conjI[OF credentialed_url conjI[OF r[THEN conjunct1]
    conjI[OF h conjI[OF m s]]]]]
  show ?thesis .
qed

text \<open>
  C5 as the specification words it counts a malformed classification response among the
  failures that end in status \<open>error\<close>. A response that is a text and no list of
  labels is taken with status \<open>analyzed\<close> and confidence 0.7, by
  \<open>performImageVerification\<close> and by \<open>verifyImage\<close>.
\<close>

theorem malformed_response_is_analyzed_counterexample:
  "truthyText (hfToken garbledService)
   \<and> isValidImageUrl garbledService (js ''https://example.com/flood.jpg'')
   \<and> classifyService garbledService [255, 216, 255] = Inr (JStr (js ''Service Unavailable''))
   \<and> fst (performImageVerification garbledService (js ''https://example.com/flood.jpg''))
       = Inr \<lparr> status = js ''analyzed'',
               analysis = js ''Image analyzed successfully'',
               confidence = JNum 0.7,
               details = [(js ''raw_analysis'', JStr (js ''Service Unavailable'')),
                          (js ''image_size'', JNum 3),
                          (js ''timestamp'', JStr (js ''2025-01-01T00:00:00.000Z''))] \<rparr>
   \<and> fst (verifyImage garbledService (js ''https://example.com/flood.jpg''))
       = fst (performImageVerification garbledService (js ''https://example.com/flood.jpg''))
   \<and> js ''analyzed'' \<noteq> js ''error''
   \<and> JNum 0.7 \<noteq> JNum 0"
proof -
  let ?u = "js ''https://example.com/flood.jpg''"
  let ?r = "classified garbledService [255, 216, 255] (JStr (js ''Service Unavailable''))
      (js ''analyzed'') (js ''Image analyzed successfully'') (JNum 0.7)"
  have c: "classifyService garbledService [255, 216, 255] = Inr (JStr (js ''Service Unavailable''))"
    by (simp add: garbledService_def)
  have "classification garbledService [255, 216, 255] (JStr (js ''Service Unavailable'')) = Inr ?r"
    by (rule classification_unranked) simp
  then have a: "fst (analyzeImageWithHuggingFace garbledService ?u) = Inr ?r"
    by (simp add: analyze_outcome garbledService_def)
  have p: "fst (performImageVerification garbledService ?u) = Inr ?r"
    using perform_advanced[OF garbled_url garbled_token] a by simp
  have k: "cache_get (imageCache garbledService) (imageKey garbledService ?u) = Inr None"
    "cache_set (imageCache garbledService) (imageKey garbledService ?u) ?r None = Inr ()"
    by (simp_all add: garbledService_def credentialedService_def offlineService_def emptyCache_def)
  have v: "fst (verifyImage garbledService ?u) = fst (performImageVerification garbledService ?u)"
    using verifyImage_miss[OF k(1) p] k(2) p by simp
  have shape: "?r = \<lparr> status = js ''analyzed'',
               analysis = js ''Image analyzed successfully'',
               confidence = JNum 0.7,
               details = [(js ''raw_analysis'', JStr (js ''Service Unavailable'')),
                          (js ''image_size'', JNum 3),
                          (js ''timestamp'', JStr (js ''2025-01-01T00:00:00.000Z''))] \<rparr>"
    by (simp add: classified_def garbledService_def credentialedService_def offlineService_def)
  have d: "js ''analyzed'' \<noteq> js ''error''" by (simp add: js_def)
  have n: "JNum 0.7 \<noteq> JNum 0" by simp
  from p shape
  have p': "fst (performImageVerification garbledService ?u)
       = Inr \<lparr> status = js ''analyzed'',
               analysis = js ''Image analyzed successfully'',
               confidence = JNum 0.7,
               details = [(js ''raw_analysis'', JStr (js ''Service Unavailable'')),
                          (js ''image_size'', JNum 3),
                          (js ''timestamp'', JStr (js ''2025-01-01T00:00:00.000Z''))] \<rparr>"
    by simp
  from conjI[OF garbled_token conjI[OF garbled_url conjI[OF c conjI[OF p' conjI[OF v conjI[OF d n]]]]]]
  show ?thesis .
qed

text \<open>
  C10. With a credential and a valid URL, when the image download and the
  classification request succeed and the response is not an array, or is an empty one,
  \<open>performImageVerification\<close> returns status \<open>analyzed\<close> with the fixed confidence
  0.7 and the text \<open>Image analyzed successfully\<close>, whatever the response holds; and
  \<open>verifyImage\<close> returns the same when the cache has no entry for the URL and takes the
  write.
\<close>

theorem unranked_response_is_analyzed:
  assumes "truthyText (hfToken g)" and "isValidImageUrl g url"
    and "imageDownload g url = Inr imageData"
    and "classifyService g imageData = Inr response"
    and "\<forall>topResult others. response \<noteq> JArr (topResult # others)"
  shows "fst (performImageVerification g url)
      = Inr \<lparr> status = js ''analyzed'',
              analysis = js ''Image analyzed successfully'',
              confidence = JNum 0.7,
              details = [(js ''raw_analysis'', response),
                         (js ''image_size'', JNum (real (length imageData))),
                         (js ''timestamp'', JStr (nowISO g))] \<rparr>
    \<and> (cache_get (imageCache g) (imageKey g url) = Inr None
        \<and> cache_set (imageCache g) (imageKey g url)
             (classified g imageData response (js ''analyzed'') (js ''Image analyzed successfully'')
               (JNum 0.7)) None = Inr ()
       \<longrightarrow> fst (verifyImage g url)
           = Inr \<lparr> status = js ''analyzed'',
                   analysis = js ''Image analyzed successfully'',
                   confidence = JNum 0.7,
                   details = [(js ''raw_analysis'', response),
                              (js ''image_size'', JNum (real (length imageData))),
                              (js ''timestamp'', JStr (nowISO g))] \<rparr>)"
proof -
  let ?r = "classified g imageData response (js ''analyzed'') (js ''Image analyzed successfully'')
      (JNum 0.7)"
  have a: "fst (analyzeImageWithHuggingFace g url) = Inr ?r"
    using assms(3,4) classification_unranked[OF assms(5)] by (simp add: analyze_outcome)
  have p: "fst (performImageVerification g url) = Inr ?r"
    using perform_advanced[OF assms(2) assms(1)] a by simp
  have v: "cache_get (imageCache g) (imageKey g url) = Inr None
        \<and> cache_set (imageCache g) (imageKey g url) ?r None = Inr ()
       \<longrightarrow> fst (verifyImage g url) = Inr ?r"
  proof
    assume c: "cache_get (imageCache g) (imageKey g url) = Inr None
        \<and> cache_set (imageCache g) (imageKey g url) ?r None = Inr ()"
    from verifyImage_miss[OF c[THEN conjunct1] p] c show "fst (verifyImage g url) = Inr ?r"
      by simp
  qed
  from p v show ?thesis by (simp add: classified_def)
qed

theorem unranked_response_is_analyzed_witness:
  "fst (verifyImage unrankedService (js ''https://example.com/flood.jpg''))
      = Inr \<lparr> status = js ''analyzed'',
              analysis = js ''Image analyzed successfully'',
              confidence = JNum 0.7,
              details = [(js ''raw_analysis'', JObj [(js ''estimated_time'', JNum 20)]),
                         (js ''image_size'', JNum 3),
                         (js ''timestamp'', JStr (js ''2025-01-01T00:00:00.000Z''))] \<rparr>"
proof -
  let ?u = "js ''https://example.com/flood.jpg''"
  have d: "imageDownload unrankedService ?u = Inr [255, 216, 255]"
    by (simp add: unrankedService_def)
  have c: "classifyService unrankedService [255, 216, 255] = Inr (JObj [(js ''estimated_time'', JNum 20)])"
    by (simp add: unrankedService_def)
  have n: "\<forall>topResult others. JObj [(js ''estimated_time'', JNum 20)] \<noteq> JArr (topResult # others)"
    by simp
  have k: "cache_get (imageCache unrankedService) (imageKey unrankedService ?u) = Inr None
        \<and> cache_set (imageCache unrankedService) (imageKey unrankedService ?u)
             (classified unrankedService [255, 216, 255] (JObj [(js ''estimated_time'', JNum 20)])
               (js ''analyzed'') (js ''Image analyzed successfully'') (JNum 0.7)) None = Inr ()"
    by (simp add: unrankedService_def credentialedService_def offlineService_def emptyCache_def)
  have t: "nowISO unrankedService = js ''2025-01-01T00:00:00.000Z''"
    by (simp add: unrankedService_def credentialedService_def offlineService_def)
  from unranked_response_is_analyzed[OF unranked_token unranked_url d c n, THEN conjunct2] k
  have "fst (verifyImage unrankedService ?u)
           = Inr \<lparr> status = js ''analyzed'',
                   analysis = js ''Image analyzed successfully'',
                   confidence = JNum 0.7,
                   details = [(js ''raw_analysis'', JObj [(js ''estimated_time'', JNum 20)]),
                              (js ''image_size'', JNum (real (length [255::nat, 216, 255]))),
                              (js ''timestamp'', JStr (nowISO unrankedService))] \<rparr>"
    by (rule mp)
  with t show ?thesis by simp
qed

section \<open>Cache writes\<close>

lemma fetch_events:
  "set (snd (fetchSocialMediaReports c now d tags))
     \<subseteq> {CacheGet (socialMediaKey d tags), CacheSet (socialMediaKey d tags) (Some 0.5)}"
  by (auto simp: fetchSocialMediaReports_def fetch_body_def try_catch_def bind_def cacheGet_def
      cacheSet_def call_def ret_def Let_def split: sum.splits option.splits)

lemma fetch_miss_events:
  "cache_get c (socialMediaKey d tags) = Inr None \<Longrightarrow>
   snd (fetchSocialMediaReports c now d tags)
     = [CacheGet (socialMediaKey d tags), CacheSet (socialMediaKey d tags) (Some 0.5)]"
  by (simp add: fetchSocialMediaReports_def fetch_body_def try_catch_def bind_def cacheGet_def
      cacheSet_def call_def ret_def Let_def split: sum.splits)

text \<open>
  C8, as amended. The cache write of \<open>fetchSocialMediaReports\<close> passes its time-to-live,
  half an hour, at the call site. The cache writes of \<open>extractLocation\<close> and of
  \<open>verifyImage\<close> pass none, and so take the default of the store. Each of the three
  operations writes to the cache whenever its cache read finds no entry.
\<close>

theorem cache_write_ttl:
  "(\<forall>k t. CacheSet k t \<in> set (snd (fetchSocialMediaReports c now d tags)) \<longrightarrow> t = Some 0.5)
   \<and> (\<forall>k t. CacheSet k t \<in> set (snd (extractLocation g description)) \<longrightarrow> t = None)
   \<and> (\<forall>k t. CacheSet k t \<in> set (snd (verifyImage g url)) \<longrightarrow> t = None)
   \<and> (cache_get c (socialMediaKey d tags) = Inr None
       \<longrightarrow> CacheSet (socialMediaKey d tags) (Some 0.5)
            \<in> set (snd (fetchSocialMediaReports c now d tags)))
   \<and> (cache_get (locationCache g) (locationKey g description) = Inr None
       \<longrightarrow> CacheSet (locationKey g description) None \<in> set (snd (extractLocation g description)))
   \<and> (cache_get (imageCache g) (imageKey g url) = Inr None
       \<longrightarrow> CacheSet (imageKey g url) None \<in> set (snd (verifyImage g url)))"
proof -
  have a: "\<forall>k t. CacheSet k t \<in> set (snd (fetchSocialMediaReports c now d tags)) \<longrightarrow> t = Some 0.5"
    using fetch_events[of c now d tags] by auto
  have b: "\<forall>k t. CacheSet k t \<in> set (snd (extractLocation g description)) \<longrightarrow> t = None"
    using extractLocation_events[of g description] by auto
  have c: "\<forall>k t. CacheSet k t \<in> set (snd (verifyImage g url)) \<longrightarrow> t = None"
    using verifyImage_events[of g url] by auto
  have a': "cache_get c (socialMediaKey d tags) = Inr None
       \<longrightarrow> CacheSet (socialMediaKey d tags) (Some 0.5)
            \<in> set (snd (fetchSocialMediaReports c now d tags))"
    by (simp add: fetch_miss_events)
  have b': "cache_get (locationCache g) (locationKey g description) = Inr None
       \<longrightarrow> CacheSet (locationKey g description) None \<in> set (snd (extractLocation g description))"
  proof
    assume m: "cache_get (locationCache g) (locationKey g description) = Inr None"
    obtain x where x: "fst (extractLocationWithNER g description) = Inr x"
      using extractLocationWithNER_returns by blast
    from extractLocation_miss[OF m x]
    show "CacheSet (locationKey g description) None \<in> set (snd (extractLocation g description))"
      by simp
  qed
  have c': "cache_get (imageCache g) (imageKey g url) = Inr None
       \<longrightarrow> CacheSet (imageKey g url) None \<in> set (snd (verifyImage g url))"
  proof
    assume m: "cache_get (imageCache g) (imageKey g url) = Inr None"
    obtain r where r: "fst (performImageVerification g url) = Inr r"
      using perform_returns by blast
    from verifyImage_miss[OF m r]
    show "CacheSet (imageKey g url) None \<in> set (snd (verifyImage g url))"
      by simp
  qed
  from conjI[OF a conjI[OF b conjI[OF c conjI[OF a' conjI[OF b' c']]]]] show ?thesis .
qed

theorem cache_write_ttl_witness:
  "CacheSet (socialMediaKey (js ''d1'') []) (Some 0.5)
     \<in> set (snd (fetchSocialMediaReports emptyCache 0 (js ''d1'') []))
   \<and> CacheSet (locationKey offlineService (js ''Flood in Reno'')) None
     \<in> set (snd (extractLocation offlineService (js ''Flood in Reno'')))
   \<and> CacheSet (imageKey offlineService (js ''not a url'')) None
     \<in> set (snd (verifyImage offlineService (js ''not a url'')))"
proof -
  note t = cache_write_ttl[of emptyCache 0 "js ''d1''" "[]" offlineService "js ''Flood in Reno''"
      "js ''not a url''"]
  have m1: "cache_get (emptyCache :: report list cache) (socialMediaKey (js ''d1'') []) = Inr None"
    by (simp add: emptyCache_def)
  from t[THEN conjunct2, THEN conjunct2, THEN conjunct2, THEN conjunct1] m1
  have a: "CacheSet (socialMediaKey (js ''d1'') []) (Some 0.5)
     \<in> set (snd (fetchSocialMediaReports emptyCache 0 (js ''d1'') []))"
    by (rule mp)
  from t[THEN conjunct2, THEN conjunct2, THEN conjunct2, THEN conjunct2, THEN conjunct1]
    offline_location_cache(1)
  have b: "CacheSet (locationKey offlineService (js ''Flood in Reno'')) None
     \<in> set (snd (extractLocation offlineService (js ''Flood in Reno'')))"
    by (rule mp)
  from t[THEN conjunct2, THEN conjunct2, THEN conjunct2, THEN conjunct2, THEN conjunct2]
    offline_image_cache(1)
  have c: "CacheSet (imageKey offlineService (js ''not a url'')) None
     \<in> set (snd (verifyImage offlineService (js ''not a url'')))"
    by (rule mp)
  from conjI[OF a conjI[OF b c]] show ?thesis .
qed

text \<open>
  C8 as the specification words it fails: \<open>extractLocation\<close> writes to the cache
  with no time-to-live.
\<close>

theorem cache_write_without_ttl_counterexample:
  "snd (extractLocation offlineService (js ''Flood in Reno''))
     = [CacheGet (locationKey offlineService (js ''Flood in Reno'')),
        CacheSet (locationKey offlineService (js ''Flood in Reno'')) None]"
  by (simp add: offline_extractLocation)

end
